theory Spec2Isabelle
  imports Main "HOL-Library.Sublist"
begin

section \<open>Go's \<^verbatim>\<open>strings\<close> package, as far as 4cget calls it\<close>

text \<open>
  Go strings are byte sequences; they are modelled as \<^typ>\<open>string\<close>.
  \<open>strings_Cut s sep\<close> slices \<open>s\<close> around the first instance of \<open>sep\<close>; the other
  functions are written with it, as Go's own are with \<^verbatim>\<open>Index\<close>. The separator is
  never empty at a call site of the program.
\<close>

fun strings_Cut :: "string \<Rightarrow> string \<Rightarrow> (string \<times> string) option" where
  "strings_Cut [] sep = (if sep = [] then Some ([], []) else None)"
| "strings_Cut (c # s) sep =
     (if prefix sep (c # s) then Some ([], drop (length sep) (c # s))
      else (case strings_Cut s sep of
              None \<Rightarrow> None
            | Some (a, b) \<Rightarrow> Some (c # a, b)))"

text \<open>\<^verbatim>\<open>strings.Replace(s, old, new, n)\<close> for \<open>n \<ge> 0\<close>: the first \<open>n\<close> instances.\<close>

fun strings_Replace :: "string \<Rightarrow> string \<Rightarrow> string \<Rightarrow> nat \<Rightarrow> string" where
  "strings_Replace s old new 0 = s"
| "strings_Replace s old new (Suc n) =
     (case strings_Cut s old of
        None \<Rightarrow> s
      | Some (a, b) \<Rightarrow> a @ new @ strings_Replace b old new n)"

text \<open>
  \<^verbatim>\<open>strings.Split(s, sep)\<close> for a non-empty \<open>sep\<close>. The fuel is the length of the
  string, which bounds the number of separators; \<open>strings_Split\<close> supplies it.
\<close>

fun split_loop :: "nat \<Rightarrow> string \<Rightarrow> string \<Rightarrow> string list" where
  "split_loop 0 s sep = [s]"
| "split_loop (Suc k) s sep =
     (case strings_Cut s sep of
        None \<Rightarrow> [s]
      | Some (a, b) \<Rightarrow> a # split_loop k b sep)"

definition strings_Split :: "string \<Rightarrow> string \<Rightarrow> string list" where
  "strings_Split s sep = split_loop (length s) s sep"

section \<open>Site profiles and link extraction (src/code/4cget.go)\<close>

text \<open>
  A compiled pattern is opaque to the program; the two patterns of \<^verbatim>\<open>siteInfoMap\<close> are
  named. \<open>Re4chan\<close> is the pattern for anchors whose \<^verbatim>\<open>href\<close> begins with
  \<^verbatim>\<open>//i.4cdn.org\<close>, \<open>ReTwochen\<close> the one for absolute links below
  \<^verbatim>\<open>/assets/images/src/\<close>, \<open>ReImg\<close> the \<^verbatim>\<open>src\<close> attribute pattern of src/4cget.go.
  Each has exactly one capture group.

  The regular expression engine belongs to Go's library. It is a parameter of the model:
  a \<open>matcher\<close> is \<^verbatim>\<open>FindAllStringSubmatch(html, -1)\<close>, giving for each match, in
  order, the pair of \<^verbatim>\<open>match[0]\<close> and \<^verbatim>\<open>match[1]\<close>.
\<close>

datatype Regexp = Re4chan | ReTwochen | ReImg

type_synonym matcher = "Regexp \<Rightarrow> string \<Rightarrow> (string \<times> string) list"

record SiteInfo =
  ID :: string
  URL :: string
  ImgRE :: Regexp

definition siteInfoMap :: "string \<rightharpoonup> SiteInfo" where
  "siteInfoMap =
     [''4chan'' \<mapsto> \<lparr>ID = ''4chan'', URL = ''https://boards.4chan.org'', ImgRE = Re4chan\<rparr>,
      ''twochen'' \<mapsto> \<lparr>ID = ''twochen'', URL = ''https://sturdychan.help/'', ImgRE = ReTwochen\<rparr>]"

text \<open>\<^verbatim>\<open>siteInfoMap["4chan"].ID\<close>: indexing a Go map gives the zero value for a missing key.\<close>

definition site_ID :: "string \<Rightarrow> string" where
  "site_ID k = (case siteInfoMap k of None \<Rightarrow> [] | Some s \<Rightarrow> ID s)"

text \<open>
  \<^verbatim>\<open>unique\<close>: the loop over \<open>input\<close>, with the map \<open>u\<close> of the values seen and the
  list built so far.
\<close>

fun unique_loop :: "string list \<Rightarrow> (string \<rightharpoonup> bool) \<Rightarrow> string list \<Rightarrow> string list" where
  "unique_loop [] u uniqueList = uniqueList"
| "unique_loop (val # input) u uniqueList =
     (if u val = None then unique_loop input (u(val \<mapsto> True)) (uniqueList @ [val])
      else unique_loop input u uniqueList)"

definition unique :: "string list \<Rightarrow> string list" where
  "unique input = unique_loop input Map.empty []"

text \<open>The loop of \<^verbatim>\<open>findImages\<close> over the matches, appending to \<open>out\<close>.\<close>

fun findImages_loop :: "string \<Rightarrow> (string \<times> string) list \<Rightarrow> string list \<Rightarrow> string list" where
  "findImages_loop siteID [] out = out"
| "findImages_loop siteID (match # matches) out =
     (let url = snd match;
          url = (if siteID = site_ID ''4chan''
                 then strings_Replace url ''//i.4cdn.org'' ''https://i.4cdn.org'' 1
                 else url)
      in findImages_loop siteID matches (out @ [url]))"

definition findImages :: "matcher \<Rightarrow> string \<Rightarrow> string \<Rightarrow> string list" where
  "findImages re html siteID =
     (case siteInfoMap siteID of
        None \<Rightarrow> []
      | Some siteInfo \<Rightarrow> unique (findImages_loop siteID (re (ImgRE siteInfo) html) []))"

text \<open>
  The link transform that \<^verbatim>\<open>findImages\<close> applies to a capture, and the positions of a
  list that hold the first occurrence of their element.
\<close>

definition linkTransform :: "string \<Rightarrow> string \<Rightarrow> string" where
  "linkTransform siteID url =
     (if siteID = ''4chan'' then strings_Replace url ''//i.4cdn.org'' ''https://i.4cdn.org'' 1
      else url)"

definition first_seen :: "'a list \<Rightarrow> 'a list" where
  "first_seen xs = map (\<lambda>i. xs ! i) (filter (\<lambda>i. xs ! i \<notin> set (take i xs)) [0..<length xs])"

section \<open>The world outside the program\<close>

text \<open>
  An HTTP response as the program reads it: the status code, the bytes its body delivers,
  and whether the body then breaks off with an error instead of ending (a connection
  that drops; for \<^verbatim>\<open>io.Copy\<close> a refused write to disk ends the copy the same way).
\<close>

record Response =
  StatusCode :: int
  Body :: string
  Broken :: bool

text \<open>
  What \<^verbatim>\<open>http.Get\<close> returns. \<open>GetErr None\<close> is a transport-level failure: the response
  is nil and the error is set. \<open>GetErr (Some r)\<close> is the one case in which Go returns an
  error and a response together (a refused redirect); the body of \<open>r\<close> is then closed.
\<close>

datatype GetResult = GetOk Response | GetErr "Response option"

fun resp_of :: "GetResult \<Rightarrow> Response option" where
  "resp_of (GetOk r) = Some r"
| "resp_of (GetErr None) = None"
| "resp_of (GetErr (Some r)) = Some (r\<lparr>Body := [], Broken := True\<rparr>)"

text \<open>
  The disk maps a path to what is there. \<open>NoAccess\<close> stands for a path whose
  \<^verbatim>\<open>os.Stat\<close> fails with an error other than "does not exist" (a permission error, say).
  Path strings are keys as the operating system resolves them, so \<^verbatim>\<open>filepath.Join(path,
  fileName)\<close>, which also cleans the joined string, names the entry that
  \<^verbatim>\<open>path + "/" + fileName\<close> names.
\<close>

datatype node = File string | Dir | NoAccess

datatype event = Get string | Sleep nat | Wait | Countdown int | Report int

record world =
  disk :: "string \<rightharpoonup> node"
  events :: "event list"

fun is_Get :: "event \<Rightarrow> bool" where
  "is_Get (Get u) = True"
| "is_Get e = False"

definition sent :: "world \<Rightarrow> nat" where
  "sent w = length (filter is_Get (events w))"

record Config =
  RetryAttempts :: int
  SleepBetweenAttempts :: nat

definition GlobalConfig :: Config where
  "GlobalConfig = \<lparr>RetryAttempts = 10, SleepBetweenAttempts = 5000\<rparr>"

text \<open>
  The environment of a run: \<open>net k url\<close> is the reply to the request for \<open>url\<close> that is
  the \<open>k\<close>-th request of the run; \<open>regex\<close> is the regular expression engine;
  \<open>sizeIndex b\<close> is the floating-point expression
  \<^verbatim>\<open>int(math.Floor(math.Log(float64(b)) / math.Log(1024)))\<close>, which the model does not
  compute; \<open>config\<close> is the package variable \<^verbatim>\<open>GlobalConfig\<close> and \<open>monitorMode\<close> the
  package variable of that name.
\<close>

record env =
  net :: "nat \<Rightarrow> string \<Rightarrow> GetResult"
  regex :: matcher
  sizeIndex :: "nat \<Rightarrow> int"
  config :: Config
  monitorMode :: bool

definition http_Get :: "env \<Rightarrow> string \<Rightarrow> world \<Rightarrow> GetResult \<times> world" where
  "http_Get E url w = (net E (sent w) url, w\<lparr>events := events w @ [Get url]\<rparr>)"

definition time_Sleep :: "nat \<Rightarrow> world \<Rightarrow> world" where
  "time_Sleep d w = w\<lparr>events := events w @ [Sleep d]\<rparr>"

datatype stat = Info bool | ErrNotExist | ErrOther

definition os_Stat :: "string \<Rightarrow> world \<Rightarrow> stat" where
  "os_Stat p w =
     (case disk w p of
        None \<Rightarrow> ErrNotExist
      | Some (File c) \<Rightarrow> Info False
      | Some Dir \<Rightarrow> Info True
      | Some NoAccess \<Rightarrow> ErrOther)"

definition os_Create :: "string \<Rightarrow> world \<Rightarrow> world option" where
  "os_Create p w =
     (case disk w p of
        Some Dir \<Rightarrow> None
      | Some NoAccess \<Rightarrow> None
      | _ \<Rightarrow> Some (w\<lparr>disk := (disk w)(p \<mapsto> File [])\<rparr>))"

text \<open>\<^verbatim>\<open>io.Copy(img, resp.Body)\<close>: the bytes written, the error, the world after.\<close>

definition io_Copy :: "string \<Rightarrow> Response \<Rightarrow> world \<Rightarrow> nat \<times> bool \<times> world" where
  "io_Copy p resp w = (length (Body resp), Broken resp, w\<lparr>disk := (disk w)(p \<mapsto> File (Body resp))\<rparr>)"

definition filepath_Join :: "string \<Rightarrow> string \<Rightarrow> string" where
  "filepath_Join path fileName = path @ ''/'' @ fileName"

section \<open>The download worker (src/code/4cget.go)\<close>

text \<open>
  A goroutine that panics ends the process. The worker returns nothing in the source;
  the model returns which of its exits it took.
\<close>

datatype panic = NilPointer | StatFailed | IndexOutOfRange

datatype reason = NotOK | CreateFailed | CopyFailed | NotFound

datatype outcome = Downloaded string nat | SkippedExisting | Failed reason

definition fileExists :: "string \<Rightarrow> world \<Rightarrow> panic + bool" where
  "fileExists p w =
     (case os_Stat p w of
        ErrNotExist \<Rightarrow> Inr False
      | ErrOther \<Rightarrow> Inl StatFailed
      | Info isDir \<Rightarrow> Inr (\<not> isDir))"

text \<open>
  The retry loop. \<open>resp\<close> is the variable of that name: \<^verbatim>\<open>resp, err = http.Get(url)\<close>
  assigns it on every attempt, also when the attempt fails.
\<close>

function retry :: "env \<Rightarrow> string \<Rightarrow> int \<Rightarrow> Response option \<Rightarrow> world \<Rightarrow> Response option \<times> world" where
  "retry E url i resp w =
     (if i < RetryAttempts (config E) then
        (case http_Get E url w of (g, w') \<Rightarrow>
           (case g of
              GetErr e \<Rightarrow>
                retry E url (i + 1) (resp_of g) (time_Sleep (SleepBetweenAttempts (config E)) w')
            | GetOk r \<Rightarrow>
                if StatusCode r \<noteq> 404 \<and> StatusCode r \<noteq> 429 then (Some r, w')
                else retry E url (i + 1) (Some r) (time_Sleep (SleepBetweenAttempts (config E)) w')))
      else (resp, w))"
  by pat_completeness auto
termination
  by (relation "measure (\<lambda>(E, url, i, resp, w). nat (RetryAttempts (config E) - i))") auto

declare retry.simps [simp del]

definition suffixes :: "string list" where
  "suffixes = [''B'', ''KB'', ''MB'', ''GB'', ''TB'']"

text \<open>The size label after the copy: the index into \<^verbatim>\<open>suffixes\<close> is checked at run time.\<close>

definition size_label :: "env \<Rightarrow> string \<Rightarrow> nat \<Rightarrow> world \<Rightarrow> (panic + outcome) \<times> world" where
  "size_label E fileName b w =
     (if 0 \<le> sizeIndex E b \<and> sizeIndex E b < int (length suffixes)
      then (Inr (Downloaded fileName b), w)
      else (Inl IndexOutOfRange, w))"

definition downloadFile :: "env \<Rightarrow> string \<Rightarrow> string \<Rightarrow> string \<Rightarrow> world \<Rightarrow> (panic + outcome) \<times> world" where
  "downloadFile E url fileName path w =
     (let filePathName = filepath_Join path fileName in
      case fileExists filePathName w of
        Inl p \<Rightarrow> (Inl p, w)
      | Inr True \<Rightarrow> (Inr SkippedExisting, w)
      | Inr False \<Rightarrow>
          (case retry E url 0 None w of (resp, w1) \<Rightarrow>
             (case resp of
                None \<Rightarrow> (Inl NilPointer, w1)
              | Some r \<Rightarrow>
                  if StatusCode r \<noteq> 200 then (Inr (Failed NotOK), w1)
                  else
                    (let filePath = path @ ''/'' @ fileName in
                     if os_Stat filePath w1 = ErrNotExist \<or> \<not> monitorMode E then
                       (case os_Create filePath w1 of
                          None \<Rightarrow> (Inr (Failed CreateFailed), w1)
                        | Some w2 \<Rightarrow>
                            (case io_Copy filePath r w2 of (b, err, w3) \<Rightarrow>
                               if err then (Inr (Failed CopyFailed), w3)
                               else size_label E fileName b w3))
                     else (Inr SkippedExisting, w1)))))"

section \<open>The loop of main (src/code/4cget.go)\<close>

text \<open>
  The body of the loop over the links: the file name is the last part of the link, a
  worker is started and \<open>files\<close> is incremented. The workers of a cycle are run one
  after the other, in the order of the links; a panic of one ends the run.
\<close>

fun workers :: "env \<Rightarrow> string \<Rightarrow> string list \<Rightarrow> int \<Rightarrow> world \<Rightarrow> (panic + int \<times> outcome list) \<times> world" where
  "workers E pathResult [] files w = (Inr (files, []), w)"
| "workers E pathResult (link # links) files w =
     (let parts = strings_Split link ''/'';
          nameImg = last parts
      in case downloadFile E link nameImg pathResult w of
           (Inl p, w') \<Rightarrow> (Inl p, w')
         | (Inr oc, w') \<Rightarrow>
             (case workers E pathResult links (files + 1) w' of
                (Inl p, w'') \<Rightarrow> (Inl p, w'')
              | (Inr (files', ocs), w'') \<Rightarrow> (Inr (files', oc # ocs), w'')))"

text \<open>
  One pass of the loop up to \<^verbatim>\<open>wg.Wait()\<close>. The error of \<^verbatim>\<open>http.Get\<close> and the error
  of \<^verbatim>\<open>io.ReadAll\<close> are discarded; \<^verbatim>\<open>resp.Body\<close> is read whatever they were.
\<close>

definition cycle :: "env \<Rightarrow> string \<Rightarrow> string \<Rightarrow> string \<Rightarrow> int \<Rightarrow> world \<Rightarrow> (panic + int \<times> outcome list) \<times> world" where
  "cycle E inputUrl siteID pathResult files w =
     (case http_Get E inputUrl w of (g, w1) \<Rightarrow>
        (case resp_of g of
           None \<Rightarrow> (Inl NilPointer, w1)
         | Some resp \<Rightarrow>
             (case workers E pathResult (findImages (regex E) (Body resp) siteID) files w1 of
                (Inl p, w2) \<Rightarrow> (Inl p, w2)
              | (Inr r, w2) \<Rightarrow> (Inr r, w2\<lparr>events := events w2 @ [Wait]\<rparr>))))"

function countdown :: "int \<Rightarrow> world \<Rightarrow> world" where
  "countdown i w =
     (if i \<ge> 0 then countdown (i - 1) (time_Sleep 1000 (w\<lparr>events := events w @ [Countdown i]\<rparr>))
      else w)"
  by pat_completeness auto
termination
  by (relation "measure (\<lambda>(i, w). nat (i + 1))") auto

declare countdown.simps [simp del]

text \<open>
  The loop of main runs forever in monitor mode: the model runs at most \<open>fuel\<close> passes
  and says \<open>Running\<close> when they are used up. \<open>monitor\<close> and \<open>secondsIteration\<close> are the
  local variables of main; the local \<^verbatim>\<open>monitorMode\<close> hides the package variable, which
  therefore keeps its zero value.
\<close>

datatype ending = Crashed panic | Finished int | Running

fun main_loop :: "nat \<Rightarrow> env \<Rightarrow> bool \<Rightarrow> int \<Rightarrow> string \<Rightarrow> string \<Rightarrow> string \<Rightarrow> int \<Rightarrow> outcome list \<Rightarrow> world
    \<Rightarrow> ending \<times> outcome list \<times> world" where
  "main_loop 0 E monitor secondsIteration inputUrl siteID pathResult files outs w = (Running, outs, w)"
| "main_loop (Suc fuel) E monitor secondsIteration inputUrl siteID pathResult files outs w =
     (case cycle E inputUrl siteID pathResult files w of
        (Inl p, w') \<Rightarrow> (Crashed p, outs, w')
      | (Inr (files', ocs), w') \<Rightarrow>
          if \<not> monitor then (Finished files', outs @ ocs, w'\<lparr>events := events w' @ [Report files']\<rparr>)
          else main_loop fuel E monitor secondsIteration inputUrl siteID pathResult files' (outs @ ocs)
                 (countdown secondsIteration w'))"

definition main_run :: "nat \<Rightarrow> env \<Rightarrow> bool \<Rightarrow> int \<Rightarrow> string \<Rightarrow> string \<Rightarrow> string \<Rightarrow> world
    \<Rightarrow> ending \<times> outcome list \<times> world" where
  "main_run fuel E monitor secondsIteration inputUrl siteID pathResult w =
     main_loop fuel (E\<lparr>monitorMode := False\<rparr>) monitor secondsIteration inputUrl siteID pathResult 0 [] w"

section \<open>The earlier program (src/4cget.go)\<close>








text \<open>
  The destination of a link in the current program: the path that the worker started
  for it checks and writes.
\<close>

definition destination :: "string \<Rightarrow> string \<Rightarrow> string" where
  "destination pathResult link = filepath_Join pathResult (last (strings_Split link ''/''))"

section \<open>Concrete runs\<close>

text \<open>
  A thread page of four anchors, the first and the third with the same link, and an engine
  that finds them: each match is the anchor up to the closing quote of its \<^verbatim>\<open>href\<close>,
  with the link as its capture.
\<close>

definition anchor :: "string \<Rightarrow> string \<times> string" where
  "anchor c = (''<a href='' @ [CHR 0x22] @ c @ [CHR 0x22], c)"

definition page3 :: string where
  "page3 = concat (map (\<lambda>c. fst (anchor c) @ ''></a>'')
     [''//i.4cdn.org/w/1.jpg'', ''//i.4cdn.org/w/2.png'', ''//i.4cdn.org/w/1.jpg'',
        ''//i.4cdn.org/w/3.gif''])"

definition re3 :: matcher where
  "re3 r html =
     (if r = Re4chan \<and> html = page3
      then map anchor [''//i.4cdn.org/w/1.jpg'', ''//i.4cdn.org/w/2.png'', ''//i.4cdn.org/w/1.jpg'',
        ''//i.4cdn.org/w/3.gif'']
      else [])"

text \<open>
  A run of the current program against that page: every link is answered with status
  200 and a body of three bytes. \<open>w_after\<close> is the world after the first cycle from an
  empty disk, \<open>w_again\<close> the world after a second one.
\<close>

definition thread3 :: string where
  "thread3 = ''https://boards.4chan.org/w/thread/1/x''"

definition ok_abc :: Response where
  "ok_abc = \<lparr>StatusCode = 200, Body = ''abc'', Broken = False\<rparr>"

definition E3 :: env where
  "E3 = \<lparr>net = (\<lambda>k url. if url = thread3 then GetOk \<lparr>StatusCode = 200, Body = page3, Broken = False\<rparr>
                          else GetOk ok_abc),
          regex = re3, sizeIndex = (\<lambda>b. 0), config = GlobalConfig, monitorMode = False\<rparr>"

definition w_empty :: world where
  "w_empty = \<lparr>disk = Map.empty, events = []\<rparr>"

definition w_after :: world where
  "w_after =
     \<lparr>disk = [''/d/1.jpg'' \<mapsto> File ''abc'', ''/d/2.png'' \<mapsto> File ''abc'', ''/d/3.gif'' \<mapsto> File ''abc''],
      events = [Get thread3, Get ''https://i.4cdn.org/w/1.jpg'', Get ''https://i.4cdn.org/w/2.png'',
        Get ''https://i.4cdn.org/w/3.gif'', Wait]\<rparr>"

definition w_again :: world where
  "w_again = w_after\<lparr>events := events w_after @ [Get thread3, Wait]\<rparr>"

text \<open>A network that is down: every request ends in a transport error.\<close>

definition E_down :: env where
  "E_down = \<lparr>net = (\<lambda>k url. GetErr None), regex = re3, sizeIndex = (\<lambda>b. 0),
     config = GlobalConfig, monitorMode = False\<rparr>"

text \<open>
  For the trace of a run: the events a worker can add, and the lines of a countdown from
  \<open>n\<close> down to 0, each followed by the sleep of one second.
\<close>

fun worker_event :: "event \<Rightarrow> bool" where
  "worker_event (Get u) = True"
| "worker_event (Sleep d) = True"
| "worker_event e = False"

definition ticks :: "int \<Rightarrow> event list" where
  "ticks n = concat (map (\<lambda>i. [Countdown i, Sleep 1000]) (rev [0..n]))"

text \<open>
  A disk on which the destination of the first link of the page cannot be examined, and
  a run in which each of the three links fails in its own way: the first is answered
  with status 500, the destination of the second is a directory, the body of the third
  breaks off after two bytes.
\<close>

definition w_locked :: world where
  "w_locked = \<lparr>disk = [''/d/1.jpg'' \<mapsto> NoAccess], events = []\<rparr>"

definition E_bad :: env where
  "E_bad = \<lparr>net = (\<lambda>k url.
        if url = thread3 then GetOk \<lparr>StatusCode = 200, Body = page3, Broken = False\<rparr>
        else if url = ''https://i.4cdn.org/w/1.jpg'' then GetOk \<lparr>StatusCode = 500, Body = [], Broken = False\<rparr>
        else if url = ''https://i.4cdn.org/w/2.png'' then GetOk ok_abc
        else GetOk \<lparr>StatusCode = 200, Body = ''ab'', Broken = True\<rparr>),
     regex = re3, sizeIndex = (\<lambda>b. 0), config = GlobalConfig, monitorMode = False\<rparr>"

definition w_dir :: world where
  "w_dir = \<lparr>disk = [''/d/2.png'' \<mapsto> Dir], events = []\<rparr>"

definition w_bad :: world where
  "w_bad = \<lparr>disk = [''/d/2.png'' \<mapsto> Dir, ''/d/3.gif'' \<mapsto> File ''ab''],
     events = [Get thread3, Get ''https://i.4cdn.org/w/1.jpg'', Get ''https://i.4cdn.org/w/2.png'',
       Get ''https://i.4cdn.org/w/3.gif'', Wait]\<rparr>"







section \<open>Link extraction: properties\<close>

lemma filter_upt_Suc:
  "filter P [0..<Suc n] = (if P 0 then [0] else []) @ map Suc (filter (\<lambda>i. P (Suc i)) [0..<n])"
proof -
  have "[0..<Suc n] = 0 # map Suc [0..<n]"
    by (simp add: upt_conv_Cons map_Suc_upt del: upt_Suc)
  then show ?thesis
    by (simp add: filter_map comp_def del: upt_Suc)
qed

text \<open>
  The loop of \<open>unique\<close> appends, in order, the elements at those positions of its input
  whose value is neither in the map nor at an earlier position.
\<close>

lemma unique_loop_first_seen:
  "unique_loop xs u acc =
     acc @ map (\<lambda>i. xs ! i) (filter (\<lambda>i. u (xs ! i) = None \<and> xs ! i \<notin> set (take i xs)) [0..<length xs])"
proof (induction xs arbitrary: u acc)
  case Nil
  show ?case by simp
next
  case (Cons x xs)
  let ?P = "\<lambda>i. u ((x # xs) ! i) = None \<and> (x # xs) ! i \<notin> set (take i (x # xs))"
  have rhs: "map (\<lambda>i. (x # xs) ! i) (filter ?P [0..<length (x # xs)]) =
      (if u x = None then [x] else []) @
      map (\<lambda>i. xs ! i) (filter (\<lambda>i. u (xs ! i) = None \<and> xs ! i \<noteq> x \<and> xs ! i \<notin> set (take i xs)) [0..<length xs])"
    unfolding length_Cons filter_upt_Suc [of ?P]
    by (auto simp: comp_def simp del: upt_Suc intro!: filter_cong)
  show ?case
  proof (cases "u x = None")
    case True
    have eq: "(\<lambda>i. (u(x \<mapsto> True)) (xs ! i) = None \<and> xs ! i \<notin> set (take i xs)) =
          (\<lambda>i. u (xs ! i) = None \<and> xs ! i \<noteq> x \<and> xs ! i \<notin> set (take i xs))"
      by (auto simp: fun_eq_iff)
    have "unique_loop (x # xs) u acc = unique_loop xs (u(x \<mapsto> True)) (acc @ [x])"
      using True by simp
    also have "\<dots> = (acc @ [x]) @ map (\<lambda>i. xs ! i)
        (filter (\<lambda>i. u (xs ! i) = None \<and> xs ! i \<noteq> x \<and> xs ! i \<notin> set (take i xs)) [0..<length xs])"
      unfolding Cons.IH eq ..
    also have "\<dots> = acc @ map (\<lambda>i. (x # xs) ! i) (filter ?P [0..<length (x # xs)])"
      unfolding rhs using True by simp
    finally show ?thesis .
  next
    case False
    have eq: "(\<lambda>i. u (xs ! i) = None \<and> xs ! i \<notin> set (take i xs)) =
          (\<lambda>i. u (xs ! i) = None \<and> xs ! i \<noteq> x \<and> xs ! i \<notin> set (take i xs))"
      using False by (auto simp: fun_eq_iff)
    have "unique_loop (x # xs) u acc = unique_loop xs u acc"
      using False by auto
    also have "\<dots> = acc @ map (\<lambda>i. xs ! i)
        (filter (\<lambda>i. u (xs ! i) = None \<and> xs ! i \<noteq> x \<and> xs ! i \<notin> set (take i xs)) [0..<length xs])"
      unfolding Cons.IH eq ..
    also have "\<dots> = acc @ map (\<lambda>i. (x # xs) ! i) (filter ?P [0..<length (x # xs)])"
      unfolding rhs using False by auto
    finally show ?thesis .
  qed
qed

lemma unique_first_seen: "unique xs = first_seen xs"
  by (simp add: unique_def first_seen_def unique_loop_first_seen)

lemma unique_loop_set: "set (unique_loop xs u acc) = set acc \<union> {x \<in> set xs. u x = None}"
  by (induction xs arbitrary: u acc) auto

lemma unique_loop_distinct:
  "distinct acc \<Longrightarrow> set acc \<subseteq> dom u \<Longrightarrow> distinct (unique_loop xs u acc)"
proof (induction xs arbitrary: u acc)
  case Nil
  then show ?case by simp
next
  case (Cons x xs)
  show ?case
  proof (cases "u x = None")
    case True
    with Cons.prems have "x \<notin> set acc" by auto
    with Cons.prems have "distinct (acc @ [x])" "set (acc @ [x]) \<subseteq> dom (u(x \<mapsto> True))"
      by auto
    then have "distinct (unique_loop xs (u(x \<mapsto> True)) (acc @ [x]))"
      by (rule Cons.IH)
    with True show ?thesis by simp
  next
    case False
    then obtain y where "u x = Some y" by auto
    with Cons.IH [OF Cons.prems] show ?thesis by simp
  qed
qed

lemma unique_set: "set (unique xs) = set xs"
  by (simp add: unique_def unique_loop_set)

lemma unique_distinct: "distinct (unique xs)"
  by (simp add: unique_def unique_loop_distinct)

lemma findImages_loop_map:
  "findImages_loop siteID ms out = out @ map (\<lambda>m. linkTransform siteID (snd m)) ms"
  by (induction ms arbitrary: out)
     (simp_all add: linkTransform_def site_ID_def siteInfoMap_def Let_def)

lemma strings_Cut_prefix: "prefix sep s \<Longrightarrow> strings_Cut s sep = Some ([], drop (length sep) s)"
  by (cases s) auto

lemma linkTransform_4chan:
  "prefix ''//i.4cdn.org'' c \<Longrightarrow> linkTransform ''4chan'' c = ''https:'' @ c"
  by (auto simp: linkTransform_def strings_Cut_prefix prefix_def)

lemma distinct_count_list: "distinct xs \<Longrightarrow> x \<in> set xs \<Longrightarrow> count_list xs x = 1"
  by (induction xs) auto

lemma findImages_eq:
  "findImages re html siteID =
     (case siteInfoMap siteID of
        None \<Rightarrow> []
      | Some s \<Rightarrow> first_seen (map (\<lambda>m. linkTransform siteID (snd m)) (re (ImgRE s) html)))"
  by (simp add: findImages_def findImages_loop_map unique_first_seen split: option.split)

lemma findImages_distinct: "distinct (findImages re html siteID)"
  by (simp add: findImages_def unique_distinct split: option.split)

lemma findImages_set:
  "siteInfoMap siteID = Some s \<Longrightarrow>
   set (findImages re html siteID) = (\<lambda>m. linkTransform siteID (snd m)) ` set (re (ImgRE s) html)"
  by (simp add: findImages_def findImages_loop_map unique_set)

text \<open>
  C6. The link extractor is a function of the page content and the site: it returns the
  first capture group of every match, transformed by the site's link transform, without
  duplicates and in the order of first occurrence (\<open>first_seen\<close> keeps exactly the
  positions whose value has not occurred before). Every link occurs once in the result,
  however often the page holds it. A page without a match, and a site without an entry,
  give the empty list. The transform of the 4chan site makes a protocol-relative capture
  absolute by putting \<^verbatim>\<open>https:\<close> before it; the captures of the other site are absolute
  as matched and are not changed.
\<close>

theorem findImages_first_seen:
  "findImages re html siteID =
     (case siteInfoMap siteID of
        None \<Rightarrow> []
      | Some s \<Rightarrow> first_seen (map (\<lambda>m. linkTransform siteID (snd m)) (re (ImgRE s) html)))
   \<and> distinct (findImages re html siteID)
   \<and> (\<forall>l \<in> set (findImages re html siteID). count_list (findImages re html siteID) l = 1)
   \<and> (\<forall>s. siteInfoMap siteID = Some s \<longrightarrow>
          set (findImages re html siteID) = (\<lambda>m. linkTransform siteID (snd m)) ` set (re (ImgRE s) html))
   \<and> (\<forall>s. siteInfoMap siteID = Some s \<longrightarrow> re (ImgRE s) html = [] \<longrightarrow> findImages re html siteID = [])
   \<and> (\<forall>c. prefix ''//i.4cdn.org'' c \<longrightarrow> linkTransform ''4chan'' c = ''https:'' @ c)
   \<and> (\<forall>c. linkTransform ''twochen'' c = c)"
proof -
  have once: "\<forall>l \<in> set (findImages re html siteID). count_list (findImages re html siteID) l = 1"
    using findImages_distinct [of re html siteID] by (simp add: distinct_count_list)
  have none: "\<forall>s. siteInfoMap siteID = Some s \<longrightarrow> re (ImgRE s) html = [] \<longrightarrow> findImages re html siteID = []"
    by (simp add: findImages_eq first_seen_def)
  have two: "\<forall>c. linkTransform ''twochen'' c = c"
    by (simp add: linkTransform_def)
  show ?thesis
    using findImages_eq [of re html siteID] findImages_distinct [of re html siteID]
      once findImages_set [of siteID _ re html] none linkTransform_4chan two
    by blast
qed

theorem findImages_first_seen_witness:
  "findImages re3 page3 ''4chan'' = [''https://i.4cdn.org/w/1.jpg'', ''https://i.4cdn.org/w/2.png'', ''https://i.4cdn.org/w/3.gif'']
   \<and> count_list (findImages re3 page3 ''4chan'') ''https://i.4cdn.org/w/1.jpg'' = 1
   \<and> findImages re3 [] ''4chan'' = []
   \<and> linkTransform ''4chan'' ''//i.4cdn.org/w/1.jpg'' = ''https://i.4cdn.org/w/1.jpg''"
proof -
  have site: "siteInfoMap ''4chan'' =
      Some \<lparr>ID = ''4chan'', URL = ''https://boards.4chan.org'', ImgRE = Re4chan\<rparr>"
    by (simp add: siteInfoMap_def)
  have caps: "map (\<lambda>m. linkTransform ''4chan'' (snd m)) (re3 Re4chan page3) =
      [''https://i.4cdn.org/w/1.jpg'', ''https://i.4cdn.org/w/2.png'', ''https://i.4cdn.org/w/1.jpg'',
       ''https://i.4cdn.org/w/3.gif'']"
    by (simp add: re3_def anchor_def linkTransform_def)
  have links: "findImages re3 page3 ''4chan'' =
      [''https://i.4cdn.org/w/1.jpg'', ''https://i.4cdn.org/w/2.png'', ''https://i.4cdn.org/w/3.gif'']"
    using findImages_first_seen [of re3 page3 "''4chan''"]
    by (simp add: site caps first_seen_def)
  have empty: "re3 Re4chan [] = []"
    by (simp add: re3_def page3_def anchor_def)
  have pre: "prefix ''//i.4cdn.org'' ''//i.4cdn.org/w/1.jpg''"
    by simp
  have all_once: "\<forall>l \<in> set (findImages re3 page3 ''4chan'').
      count_list (findImages re3 page3 ''4chan'') l = 1"
    using findImages_first_seen [of re3 page3 "''4chan''"] by blast
  have mem: "''https://i.4cdn.org/w/1.jpg'' \<in> set (findImages re3 page3 ''4chan'')"
    by (simp add: links)
  have one: "count_list (findImages re3 page3 ''4chan'') ''https://i.4cdn.org/w/1.jpg'' = 1"
    using all_once mem by blast
  have "\<forall>s. siteInfoMap ''4chan'' = Some s \<longrightarrow> re3 (ImgRE s) [] = [] \<longrightarrow>
      findImages re3 [] ''4chan'' = []"
    using findImages_first_seen [of re3 "[]" "''4chan''"] by blast
  with site empty have no_match: "findImages re3 [] ''4chan'' = []"
    by simp
  have "\<forall>c. prefix ''//i.4cdn.org'' c \<longrightarrow> linkTransform ''4chan'' c = ''https:'' @ c"
    using findImages_first_seen [of re3 page3 "''4chan''"] by blast
  with pre have abs: "linkTransform ''4chan'' ''//i.4cdn.org/w/1.jpg'' = ''https://i.4cdn.org/w/1.jpg''"
    by simp
  show ?thesis
    using links one no_match abs by simp
qed

section \<open>The download worker and the cycle: effects on the disk\<close>

lemma http_Get_disk [simp]: "disk (snd (http_Get E url w)) = disk w"
  by (simp add: http_Get_def)

lemma http_Get_events [simp]: "events (snd (http_Get E url w)) = events w @ [Get url]"
  by (simp add: http_Get_def)

lemma http_Get_fst [simp]: "fst (http_Get E url w) = net E (sent w) url"
  by (simp add: http_Get_def)

lemma time_Sleep_disk [simp]: "disk (time_Sleep d w) = disk w"
  by (simp add: time_Sleep_def)

lemma time_Sleep_events [simp]: "events (time_Sleep d w) = events w @ [Sleep d]"
  by (simp add: time_Sleep_def)

lemma retry_disk: "disk (snd (retry E url i resp w)) = disk w"
proof (induction E url i resp w rule: retry.induct)
  case (1 E url i resp w)
  show ?case
  proof (cases "i < RetryAttempts (config E)")
    case False
    then show ?thesis by (simp add: retry.simps)
  next
    case True
    obtain g w' where g: "http_Get E url w = (g, w')" by (cases "http_Get E url w")
    then have w': "disk w' = disk w" using http_Get_disk [of E url w] by simp
    show ?thesis
    proof (cases g)
      case (GetErr e)
      from 1(2) [OF True g [symmetric] GetErr] True g GetErr w' show ?thesis
        by (simp add: retry.simps [of E url i resp w])
    next
      case (GetOk r)
      show ?thesis
      proof (cases "StatusCode r \<noteq> 404 \<and> StatusCode r \<noteq> 429")
        case True
        with \<open>i < RetryAttempts (config E)\<close> g GetOk w' show ?thesis
          by (simp add: retry.simps [of E url i resp w])
      next
        case False
        from 1(1) [OF \<open>i < RetryAttempts (config E)\<close> g [symmetric] GetOk False]
          \<open>i < RetryAttempts (config E)\<close> g GetOk w' False show ?thesis
          by (simp add: retry.simps [of E url i resp w])
      qed
    qed
  qed
qed


lemma downloadFile_skip:
  "disk w (filepath_Join path fileName) = Some (File c) \<Longrightarrow>
   downloadFile E url fileName path w = (Inr SkippedExisting, w)"
  by (simp add: downloadFile_def fileExists_def os_Stat_def)

lemma downloadFile_keeps_files:
  assumes "disk w p = Some (File c)"
  shows "disk (snd (downloadFile E url fileName path w)) p = Some (File c)"
proof (cases "p = path @ ''/'' @ fileName")
  case True
  with assms show ?thesis
    by (simp add: downloadFile_skip filepath_Join_def)
next
  case False
  obtain resp w1 where r: "retry E url 0 None w = (resp, w1)" by (cases "retry E url 0 None w")
  then have d: "disk w1 = disk w" using retry_disk [of E url 0 None w] by simp
  with False assms r show ?thesis
    by (auto simp: downloadFile_def Let_def os_Create_def io_Copy_def size_label_def
        split: sum.splits bool.splits option.splits node.splits if_splits prod.splits)
qed




lemma workers_skips:
  "workers E path links files w = (Inr (files', ocs), w') \<Longrightarrow>
   length ocs = length links \<and> files' = files + int (length links) \<and>
   (\<forall>i < length links. (\<exists>c. disk w (destination path (links ! i)) = Some (File c)) \<longrightarrow>
      ocs ! i = SkippedExisting)"
proof (induction links arbitrary: files w files' ocs w')
  case Nil
  then show ?case by simp
next
  case (Cons link links)
  let ?name = "last (strings_Split link ''/'')"
  obtain res w1 where d: "downloadFile E link ?name path w = (res, w1)"
    by (cases "downloadFile E link ?name path w")
  from Cons.prems d obtain oc where oc: "res = Inr oc"
    by (cases res) (simp_all add: Let_def)
  from Cons.prems d oc obtain ocs' where
    rest: "workers E path links (files + 1) w1 = (Inr (files', ocs'), w')" and ocs: "ocs = oc # ocs'"
    by (auto simp: Let_def split: prod.splits sum.splits)
  note IH = Cons.IH [OF rest]
  have head: "(\<exists>c. disk w (destination path link) = Some (File c)) \<longrightarrow> oc = SkippedExisting"
    using d oc by (auto simp: destination_def downloadFile_skip)
  have tail: "\<forall>i < length links. (\<exists>c. disk w (destination path (links ! i)) = Some (File c)) \<longrightarrow>
      ocs' ! i = SkippedExisting"
  proof (intro allI impI)
    fix i assume i: "i < length links" and "\<exists>c. disk w (destination path (links ! i)) = Some (File c)"
    then obtain c where "disk w (destination path (links ! i)) = Some (File c)" by blast
    then have "disk w1 (destination path (links ! i)) = Some (File c)"
      using downloadFile_keeps_files [of w _ c E link ?name path] d by simp
    with IH i show "ocs' ! i = SkippedExisting" by blast
  qed
  show ?case
  proof (intro conjI allI impI)
    show "length ocs = length (link # links)" using IH ocs by simp
    show "files' = files + int (length (link # links))" using IH by simp
  next
    fix i assume "i < length (link # links)"
      and "\<exists>c. disk w (destination path ((link # links) ! i)) = Some (File c)"
    then show "ocs ! i = SkippedExisting"
      using head tail ocs by (cases i) auto
  qed
qed



lemma links3: "findImages re3 page3 ''4chan'' = [''https://i.4cdn.org/w/1.jpg'', ''https://i.4cdn.org/w/2.png'', ''https://i.4cdn.org/w/3.gif'']"
  by (simp add: findImages_eq siteInfoMap_def re3_def anchor_def linkTransform_def first_seen_def)

lemma split1: "strings_Split ''https://i.4cdn.org/w/1.jpg'' ''/'' = [''https:'', [], ''i.4cdn.org'', ''w'', ''1.jpg'']"
  by (simp add: strings_Split_def)

lemma split2: "strings_Split ''https://i.4cdn.org/w/2.png'' ''/'' = [''https:'', [], ''i.4cdn.org'', ''w'', ''2.png'']"
  by (simp add: strings_Split_def)

lemma split3: "strings_Split ''https://i.4cdn.org/w/3.gif'' ''/'' = [''https:'', [], ''i.4cdn.org'', ''w'', ''3.gif'']"
  by (simp add: strings_Split_def)

lemma cycle3_first:
  "cycle E3 thread3 ''4chan'' ''/d'' 0 w_empty =
     (Inr (3, [Downloaded ''1.jpg'' 3, Downloaded ''2.png'' 3, Downloaded ''3.gif'' 3]), w_after)"
  by (simp add: cycle_def http_Get_def sent_def E3_def w_empty_def w_after_def links3 split1 split2 split3
      downloadFile_def fileExists_def os_Stat_def filepath_Join_def retry.simps GlobalConfig_def
      ok_abc_def thread3_def os_Create_def io_Copy_def size_label_def suffixes_def Let_def)



lemma cycle_Inr:
  assumes "cycle E inputUrl siteID pathResult files w = (Inr (files', ocs), w')"
  obtains resp wj where "resp_of (net E (sent w) inputUrl) = Some resp"
    and "workers E pathResult (findImages (regex E) (Body resp) siteID) files
           (w\<lparr>events := events w @ [Get inputUrl]\<rparr>) = (Inr (files', ocs), wj)"
    and "w' = wj\<lparr>events := events wj @ [Wait]\<rparr>"
  using assms
  by (auto simp: cycle_def http_Get_def split: option.splits prod.splits sum.splits)






section \<open>The retry loop\<close>

lemma sent_http_Get [simp]: "sent (snd (http_Get E url w)) = Suc (sent w)"
  by (simp add: sent_def http_Get_def)

lemma sent_time_Sleep [simp]: "sent (time_Sleep d w) = sent w"
  by (simp add: sent_def time_Sleep_def)

lemma retry_done: "\<not> i < RetryAttempts (config E) \<Longrightarrow> retry E url i resp w = (resp, w)"
  by (simp add: retry.simps)

lemma retry_step_err:
  "i < RetryAttempts (config E) \<Longrightarrow> net E (sent w) url = GetErr e \<Longrightarrow>
   retry E url i resp w =
     retry E url (i + 1) (resp_of (GetErr e))
       (time_Sleep (SleepBetweenAttempts (config E)) (snd (http_Get E url w)))"
  by (simp add: retry.simps [of E url i resp w] http_Get_def)

lemma retry_step_again:
  "i < RetryAttempts (config E) \<Longrightarrow> net E (sent w) url = GetOk r \<Longrightarrow>
   StatusCode r = 404 \<or> StatusCode r = 429 \<Longrightarrow>
   retry E url i resp w =
     retry E url (i + 1) (Some r)
       (time_Sleep (SleepBetweenAttempts (config E)) (snd (http_Get E url w)))"
  by (auto simp: retry.simps [of E url i resp w] http_Get_def)

lemma retry_step_stop:
  "i < RetryAttempts (config E) \<Longrightarrow> net E (sent w) url = GetOk r \<Longrightarrow>
   StatusCode r \<noteq> 404 \<Longrightarrow> StatusCode r \<noteq> 429 \<Longrightarrow>
   retry E url i resp w = (Some r, snd (http_Get E url w))"
  by (simp add: retry.simps [of E url i resp w] http_Get_def)

text \<open>The attempts of a loop that never sees a final answer: a request and a sleep, each.\<close>

lemma retry_all_errors:
  "\<forall>k < nat (RetryAttempts (config E) - i). net E (sent w + k) url = GetErr None \<Longrightarrow>
   retry E url i None w =
     (None, w\<lparr>events := events w @
        concat (replicate (nat (RetryAttempts (config E) - i))
          [Get url, Sleep (SleepBetweenAttempts (config E))])\<rparr>)"
proof (induction "nat (RetryAttempts (config E) - i)" arbitrary: i w)
  case 0
  then have "\<not> i < RetryAttempts (config E)" by simp
  with 0 show ?case by (simp add: retry_done)
next
  case (Suc n)
  let ?w' = "time_Sleep (SleepBetweenAttempts (config E)) (snd (http_Get E url w))"
  from Suc(2) have lt: "i < RetryAttempts (config E)" and n: "n = nat (RetryAttempts (config E) - (i + 1))"
    by simp_all
  from Suc(3) Suc(2) [symmetric] have first: "net E (sent w) url = GetErr None"
    by (metis add.right_neutral zero_less_Suc)
  have "\<forall>k < nat (RetryAttempts (config E) - (i + 1)). net E (sent ?w' + k) url = GetErr None"
  proof (intro allI impI)
    fix k assume "k < nat (RetryAttempts (config E) - (i + 1))"
    then have "Suc k < nat (RetryAttempts (config E) - i)" by simp
    with Suc(3) have "net E (sent w + Suc k) url = GetErr None" by blast
    then show "net E (sent ?w' + k) url = GetErr None" by simp
  qed
  from Suc(1) [OF n this] retry_step_err [OF lt first, of None] Suc(2) [symmetric] n
  show ?case
    by (simp add: http_Get_def time_Sleep_def)
qed

lemma retry_all_again:
  "\<forall>k < nat (RetryAttempts (config E) - i).
      \<exists>r. net E (sent w + k) url = GetOk r \<and> (StatusCode r = 404 \<or> StatusCode r = 429) \<Longrightarrow>
   i < RetryAttempts (config E) \<or> (\<exists>r. resp = Some r \<and> (StatusCode r = 404 \<or> StatusCode r = 429)) \<Longrightarrow>
   \<exists>r. retry E url i resp w =
     (Some r, w\<lparr>events := events w @
        concat (replicate (nat (RetryAttempts (config E) - i))
          [Get url, Sleep (SleepBetweenAttempts (config E))])\<rparr>)
     \<and> (StatusCode r = 404 \<or> StatusCode r = 429)"
proof (induction "nat (RetryAttempts (config E) - i)" arbitrary: i w resp)
  case 0
  then have "\<not> i < RetryAttempts (config E)" by simp
  with 0 show ?case by (auto simp: retry_done)
next
  case (Suc n)
  let ?w' = "time_Sleep (SleepBetweenAttempts (config E)) (snd (http_Get E url w))"
  from Suc(2) have lt: "i < RetryAttempts (config E)" and n: "n = nat (RetryAttempts (config E) - (i + 1))"
    by simp_all
  from Suc(3) Suc(2) [symmetric] obtain r0 where
    first: "net E (sent w) url = GetOk r0" and st: "StatusCode r0 = 404 \<or> StatusCode r0 = 429"
    by (metis add.right_neutral zero_less_Suc)
  have rest: "\<forall>k < nat (RetryAttempts (config E) - (i + 1)).
      \<exists>r. net E (sent ?w' + k) url = GetOk r \<and> (StatusCode r = 404 \<or> StatusCode r = 429)"
  proof (intro allI impI)
    fix k assume "k < nat (RetryAttempts (config E) - (i + 1))"
    then have "Suc k < nat (RetryAttempts (config E) - i)" by simp
    with Suc(3) have "\<exists>r. net E (sent w + Suc k) url = GetOk r \<and> (StatusCode r = 404 \<or> StatusCode r = 429)"
      by blast
    then show "\<exists>r. net E (sent ?w' + k) url = GetOk r \<and> (StatusCode r = 404 \<or> StatusCode r = 429)"
      by simp
  qed
  have "i + 1 < RetryAttempts (config E) \<or> (\<exists>r. Some r0 = Some r \<and> (StatusCode r = 404 \<or> StatusCode r = 429))"
    using st by simp
  from Suc(1) [OF n rest this] retry_step_again [OF lt first st, of resp] Suc(2) [symmetric] n
  show ?case
    by (simp add: http_Get_def time_Sleep_def)
qed

text \<open>
  A worker whose every attempt is answered with status 404 or 429 makes exactly the
  configured number of requests, sleeps after each of them, and fails without touching
  the disk.
\<close>

lemma retry_budget:
  assumes "fileExists (filepath_Join path fileName) w = Inr False"
    and "0 < RetryAttempts (config E)"
    and "\<forall>k < nat (RetryAttempts (config E)).
          \<exists>r. net E (sent w + k) url = GetOk r \<and> (StatusCode r = 404 \<or> StatusCode r = 429)"
  shows "downloadFile E url fileName path w =
     (Inr (Failed NotOK), w\<lparr>events := events w @
        concat (replicate (nat (RetryAttempts (config E)))
          [Get url, Sleep (SleepBetweenAttempts (config E))])\<rparr>)"
proof -
  from retry_all_again [of E 0 w url None] assms(2,3) obtain r where
    "retry E url 0 None w =
     (Some r, w\<lparr>events := events w @
        concat (replicate (nat (RetryAttempts (config E)))
          [Get url, Sleep (SleepBetweenAttempts (config E))])\<rparr>)"
    and "StatusCode r = 404 \<or> StatusCode r = 429"
    by auto
  with assms(1) show ?thesis
    by (auto simp: downloadFile_def)
qed

text \<open>
  C2. Where the specification asks for the same failed outcome when every attempt ends
  in a transport error, the worker panics: after the configured number of requests, each
  followed by the sleep, \<^verbatim>\<open>resp\<close> is nil and \<^verbatim>\<open>resp.StatusCode\<close> is read. The case
  of the statuses 404 and 429 is \<open>retry_budget\<close>.
\<close>

theorem transport_errors_panic:
  assumes "fileExists (filepath_Join path fileName) w = Inr False"
    and "\<forall>k < nat (RetryAttempts (config E)). net E (sent w + k) url = GetErr None"
  shows "downloadFile E url fileName path w =
     (Inl NilPointer, w\<lparr>events := events w @
        concat (replicate (nat (RetryAttempts (config E)))
          [Get url, Sleep (SleepBetweenAttempts (config E))])\<rparr>)"
  using retry_all_errors [of E 0 w url] assms
  by (simp add: downloadFile_def)

theorem transport_errors_panic_witness:
  "fileExists (filepath_Join ''/d'' ''1.jpg'') w_empty = Inr False
   \<and> downloadFile E_down ''https://i.4cdn.org/w/1.jpg'' ''1.jpg'' ''/d'' w_empty =
     (Inl NilPointer, w_empty\<lparr>events :=
        concat (replicate 10 [Get ''https://i.4cdn.org/w/1.jpg'', Sleep 5000])\<rparr>)"
proof -
  have absent: "fileExists (filepath_Join ''/d'' ''1.jpg'') w_empty = Inr False"
    by (simp add: fileExists_def os_Stat_def w_empty_def)
  have down: "\<forall>k < nat (RetryAttempts (config E_down)).
      net E_down (sent w_empty + k) ''https://i.4cdn.org/w/1.jpg'' = GetErr None"
    by (simp add: E_down_def)
  from transport_errors_panic [OF absent down] absent show ?thesis
    by (simp add: E_down_def GlobalConfig_def w_empty_def)
qed

text \<open>
  C5. Where the specification asks that a cycle whose page request ends in a transport
  error goes on with an empty body, the loop of main reads \<^verbatim>\<open>resp.Body\<close> of a nil response: the
  run ends in a panic, in monitor mode and out of it, before any link is extracted.
\<close>

theorem page_fetch_error_crashes:
  "net E (sent w) inputUrl = GetErr None \<Longrightarrow>
   main_loop (Suc fuel) E monitor secondsIteration inputUrl siteID pathResult files outs w =
     (Crashed NilPointer, outs, w\<lparr>events := events w @ [Get inputUrl]\<rparr>)"
  by (simp add: cycle_def http_Get_def)

theorem page_fetch_error_crashes_witness:
  "net E_down (sent w_empty) thread3 = GetErr None
   \<and> main_run 1 E_down True 5 thread3 ''4chan'' ''/d'' w_empty =
     (Crashed NilPointer, [], w_empty\<lparr>events := [Get thread3]\<rparr>)"
proof -
  have down: "net (E_down\<lparr>monitorMode := False\<rparr>) (sent w_empty) thread3 = GetErr None"
    by (simp add: E_down_def)
  from page_fetch_error_crashes [OF down, of 0 True 5 "''4chan''" "''/d''" 0 "[]"] show ?thesis
    by (simp add: main_run_def E_down_def w_empty_def)
qed

section \<open>The trace of a run\<close>

lemma retry_events:
  "\<exists>wk. events (snd (retry E url i resp w)) = events w @ wk \<and> list_all worker_event wk"
proof (induction E url i resp w rule: retry.induct)
  case (1 E url i resp w)
  show ?case
  proof (cases "i < RetryAttempts (config E)")
    case False
    then show ?thesis by (simp add: retry.simps)
  next
    case lt: True
    obtain g w' where g: "http_Get E url w = (g, w')" by (cases "http_Get E url w")
    then have w': "events w' = events w @ [Get url]" using http_Get_events [of E url w] by simp
    show ?thesis
    proof (cases g)
      case (GetErr e)
      from 1(2) [OF lt g [symmetric] GetErr] obtain wk where
        "events (snd (retry E url (i + 1) (resp_of g) (time_Sleep (SleepBetweenAttempts (config E)) w')))
          = events (time_Sleep (SleepBetweenAttempts (config E)) w') @ wk" "list_all worker_event wk"
        by blast
      with lt g GetErr w' show ?thesis
        by (simp add: retry.simps [of E url i resp w])
    next
      case (GetOk r)
      show ?thesis
      proof (cases "StatusCode r \<noteq> 404 \<and> StatusCode r \<noteq> 429")
        case True
        with lt g GetOk w' show ?thesis
          by (simp add: retry.simps [of E url i resp w])
      next
        case False
        from 1(1) [OF lt g [symmetric] GetOk False] obtain wk where
          "events (snd (retry E url (i + 1) (Some r) (time_Sleep (SleepBetweenAttempts (config E)) w')))
            = events (time_Sleep (SleepBetweenAttempts (config E)) w') @ wk" "list_all worker_event wk"
          by blast
        with lt g GetOk w' False show ?thesis
          by (simp add: retry.simps [of E url i resp w])
      qed
    qed
  qed
qed

lemma downloadFile_events:
  "\<exists>wk. events (snd (downloadFile E url fileName path w)) = events w @ wk \<and> list_all worker_event wk"
proof -
  obtain resp w1 where r: "retry E url 0 None w = (resp, w1)" by (cases "retry E url 0 None w")
  with retry_events [of E url 0 None w] obtain wk where
    "events w1 = events w @ wk" "list_all worker_event wk" by auto
  with r show ?thesis
    by (auto simp: downloadFile_def Let_def os_Create_def io_Copy_def size_label_def
        split: sum.splits bool.splits option.splits node.splits if_splits prod.splits)
qed

lemma workers_events:
  "\<exists>wk. events (snd (workers E path links files w)) = events w @ wk \<and> list_all worker_event wk"
proof (induction links arbitrary: files w)
  case Nil
  show ?case by simp
next
  case (Cons link links)
  let ?name = "last (strings_Split link ''/'')"
  obtain res w1 where d: "downloadFile E link ?name path w = (res, w1)"
    by (cases "downloadFile E link ?name path w")
  with downloadFile_events [of E link ?name path w] obtain wk1 where
    wk1: "events w1 = events w @ wk1" "list_all worker_event wk1" by auto
  show ?case
  proof (cases res)
    case (Inl p)
    with d wk1 show ?thesis by (simp add: Let_def)
  next
    case (Inr oc)
    from Cons.IH [of "files + 1" w1] obtain wk2 where
      "events (snd (workers E path links (files + 1) w1)) = events w1 @ wk2" "list_all worker_event wk2"
      by blast
    with wk1 have "events (snd (workers E path links (files + 1) w1)) = events w @ (wk1 @ wk2)
        \<and> list_all worker_event (wk1 @ wk2)" by simp
    then have "\<exists>wk. events (snd (workers E path links (files + 1) w1)) = events w @ wk
        \<and> list_all worker_event wk" by blast
    with d Inr show ?thesis
      by (auto simp: Let_def split: prod.splits sum.splits)
  qed
qed

lemma cycle_events:
  assumes "cycle E inputUrl siteID pathResult files w = (res, w')"
  shows "\<exists>wk. list_all worker_event wk \<and>
     events w' = events w @ [Get inputUrl] @ wk @ (case res of Inl p \<Rightarrow> [] | Inr r \<Rightarrow> [Wait])"
proof (cases "resp_of (net E (sent w) inputUrl)")
  case None
  with assms have "events w' = events w @ [Get inputUrl] @ [] @ (case res of Inl p \<Rightarrow> [] | Inr r \<Rightarrow> [Wait])"
    by (auto simp: cycle_def http_Get_def)
  then show ?thesis by (intro exI [of _ "[]"]) simp
next
  case (Some resp)
  let ?w1 = "w\<lparr>events := events w @ [Get inputUrl]\<rparr>"
  let ?b = "workers E pathResult (findImages (regex E) (Body resp) siteID) files ?w1"
  from workers_events [of E pathResult _ files ?w1] obtain wk where
    wk: "events (snd ?b) = events ?w1 @ wk" "list_all worker_event wk" by blast
  with Some assms have "events w' = events w @ [Get inputUrl] @ wk @ (case res of Inl p \<Rightarrow> [] | Inr r \<Rightarrow> [Wait])"
    by (cases ?b) (auto simp: cycle_def http_Get_def split: sum.splits)
  with wk show ?thesis by blast
qed

lemma countdown_events: "events (countdown n w) = events w @ ticks n"
proof (induction n w rule: countdown.induct)
  case (1 i w)
  show ?case
  proof (cases "i \<ge> 0")
    case False
    then show ?thesis by (simp add: countdown.simps ticks_def)
  next
    case True
    have "[0..i] = [0..i - 1] @ [i]"
      using True by (simp add: upto_rec2)
    then have "ticks i = [Countdown i, Sleep 1000] @ ticks (i - 1)"
      by (simp add: ticks_def)
    with 1 [OF True] True show ?thesis
      by (simp add: countdown.simps [of i w] time_Sleep_def)
  qed
qed

lemma countdown_disk [simp]: "disk (countdown n w) = disk w"
proof (induction n w rule: countdown.induct)
  case (1 i w)
  then show ?case by (cases "i \<ge> 0") (simp_all add: countdown.simps [of i w])
qed

lemma main_loop_once:
  assumes "main_loop (Suc fuel) E False secondsIteration inputUrl siteID pathResult files outs w = (e, outs', w')"
  shows "e \<noteq> Running \<and> (\<exists>wk. list_all worker_event wk \<and>
     events w' = events w @ [Get inputUrl] @ wk @
       (case e of Finished n \<Rightarrow> [Wait, Report n] | _ \<Rightarrow> []))"
proof -
  obtain res w1 where c: "cycle E inputUrl siteID pathResult files w = (res, w1)"
    by (cases "cycle E inputUrl siteID pathResult files w")
  from cycle_events [OF c] obtain wk where wk: "list_all worker_event wk"
    "events w1 = events w @ [Get inputUrl] @ wk @ (case res of Inl p \<Rightarrow> [] | Inr r \<Rightarrow> [Wait])"
    by blast
  show ?thesis
  proof (cases res)
    case (Inl p)
    with assms c wk show ?thesis by auto
  next
    case (Inr r)
    with assms c wk show ?thesis by (cases r) auto
  qed
qed

lemma main_loop_monitor:
  "main_loop fuel E True secondsIteration inputUrl siteID pathResult files outs w = (e, outs', w') \<Longrightarrow>
   (\<forall>n. e \<noteq> Finished n) \<and>
   (e = Running \<longrightarrow> (\<exists>wks. length wks = fuel \<and> list_all (list_all worker_event) wks \<and>
      events w' = events w @
        concat (map (\<lambda>wk. [Get inputUrl] @ wk @ [Wait] @ ticks secondsIteration) wks)))"
proof (induction fuel arbitrary: files outs w)
  case 0
  then show ?case by simp
next
  case (Suc fuel)
  obtain res w1 where c: "cycle E inputUrl siteID pathResult files w = (res, w1)"
    by (cases "cycle E inputUrl siteID pathResult files w")
  from cycle_events [OF c] obtain wk where wk: "list_all worker_event wk"
    "events w1 = events w @ [Get inputUrl] @ wk @ (case res of Inl p \<Rightarrow> [] | Inr r \<Rightarrow> [Wait])"
    by blast
  show ?case
  proof (cases res)
    case (Inl p)
    with Suc.prems c show ?thesis by auto
  next
    case (Inr r)
    obtain files1 ocs where r: "r = (files1, ocs)" by (cases r)
    with Suc.prems c Inr have rest:
      "main_loop fuel E True secondsIteration inputUrl siteID pathResult files1 (outs @ ocs)
         (countdown secondsIteration w1) = (e, outs', w')"
      by simp
    note IH = Suc.IH [OF rest]
    show ?thesis
    proof (intro conjI impI)
      show "\<forall>n. e \<noteq> Finished n" using IH by blast
    next
      assume "e = Running"
      with IH obtain wks where wks: "length wks = fuel" "list_all (list_all worker_event) wks"
        "events w' = events (countdown secondsIteration w1) @
          concat (map (\<lambda>wk. [Get inputUrl] @ wk @ [Wait] @ ticks secondsIteration) wks)"
        by blast
      have "length (wk # wks) = Suc fuel \<and> list_all (list_all worker_event) (wk # wks) \<and>
        events w' = events w @
          concat (map (\<lambda>wk. [Get inputUrl] @ wk @ [Wait] @ ticks secondsIteration) (wk # wks))"
        using wks wk Inr by (simp add: countdown_events)
      then show "\<exists>wks. length wks = Suc fuel \<and> list_all (list_all worker_event) wks \<and>
        events w' = events w @
          concat (map (\<lambda>wk. [Get inputUrl] @ wk @ [Wait] @ ticks secondsIteration) wks)"
        by blast
    qed
  qed
qed

lemma cycle3_again:
  "disk w = disk w_after \<Longrightarrow>
   cycle E3 thread3 ''4chan'' ''/d'' files w =
     (Inr (files + 3, [SkippedExisting, SkippedExisting, SkippedExisting]),
      w\<lparr>events := events w @ [Get thread3, Wait]\<rparr>)"
  by (simp add: cycle_def http_Get_def E3_def w_after_def links3 split1 split2 split3
      downloadFile_def fileExists_def os_Stat_def filepath_Join_def Let_def)

lemma ticks2: "ticks 2 = [Countdown 2, Sleep 1000, Countdown 1, Sleep 1000, Countdown 0, Sleep 1000]"
  by (simp add: ticks_def upto.simps)

text \<open>
  C8. Out of monitor mode the loop of main ends after one pass, whatever the fuel: the
  trace it adds is the page request, the events of the workers, the return of
  \<^verbatim>\<open>wg.Wait()\<close> and the report (or, when the pass panics, the page request and events
  of workers), with no countdown line. In monitor mode the loop never finishes, and
  the trace of every completed pass is the page request, the events of its workers, the
  return of \<^verbatim>\<open>wg.Wait()\<close> and then the countdown lines from \<open>secondsIteration\<close> down
  to 0, each followed by a sleep of one second; the next page request comes only after
  them.
\<close>

theorem one_pass_or_countdown:
  "(main_loop (Suc fuel) E False secondsIteration inputUrl siteID pathResult files outs w = (e, outs', w') \<longrightarrow>
      e \<noteq> Running \<and>
      (\<exists>wk. list_all worker_event wk \<and>
         events w' = events w @ [Get inputUrl] @ wk @
           (case e of Finished n \<Rightarrow> [Wait, Report n] | _ \<Rightarrow> [])))
   \<and> (main_loop fuel E True secondsIteration inputUrl siteID pathResult files outs w = (e, outs', w') \<longrightarrow>
      (\<forall>n. e \<noteq> Finished n) \<and>
      (e = Running \<longrightarrow>
         (\<exists>wks. length wks = fuel \<and> list_all (list_all worker_event) wks \<and>
            events w' = events w @
              concat (map (\<lambda>wk. [Get inputUrl] @ wk @ [Wait] @ ticks secondsIteration) wks))))"
  using main_loop_once [of fuel E secondsIteration inputUrl siteID pathResult files outs w e outs' w']
    main_loop_monitor [of fuel E secondsIteration inputUrl siteID pathResult files outs w e outs' w']
  by blast

theorem one_pass_or_countdown_witness:
  "main_loop (Suc 0) E3 False 2 thread3 ''4chan'' ''/d'' 0 [] w_empty =
     (Finished 3, [Downloaded ''1.jpg'' 3, Downloaded ''2.png'' 3, Downloaded ''3.gif'' 3],
      w_after\<lparr>events := events w_after @ [Report 3]\<rparr>)
   \<and> (\<exists>wk. list_all worker_event wk \<and>
         events (w_after\<lparr>events := events w_after @ [Report 3]\<rparr>) =
           events w_empty @ [Get thread3] @ wk @ [Wait, Report 3])
   \<and> fst (main_loop (Suc (Suc 0)) E3 True 2 thread3 ''4chan'' ''/d'' 0 [] w_empty) = Running
   \<and> (\<exists>wks. length wks = Suc (Suc 0) \<and> list_all (list_all worker_event) wks \<and>
         events (snd (snd (main_loop (Suc (Suc 0)) E3 True 2 thread3 ''4chan'' ''/d'' 0 [] w_empty))) =
           events w_empty @ concat (map (\<lambda>wk. [Get thread3] @ wk @ [Wait] @
             [Countdown 2, Sleep 1000, Countdown 1, Sleep 1000, Countdown 0, Sleep 1000]) wks))"
proof -
  let ?once = "main_loop (Suc 0) E3 False 2 thread3 ''4chan'' ''/d'' 0 [] w_empty"
  let ?twice = "main_loop (Suc (Suc 0)) E3 True 2 thread3 ''4chan'' ''/d'' 0 [] w_empty"
  have once: "?once = (Finished 3, [Downloaded ''1.jpg'' 3, Downloaded ''2.png'' 3, Downloaded ''3.gif'' 3],
      w_after\<lparr>events := events w_after @ [Report 3]\<rparr>)"
    by (simp add: cycle3_first)
  have twice: "?twice = (Running,
      [Downloaded ''1.jpg'' 3, Downloaded ''2.png'' 3, Downloaded ''3.gif'' 3,
       SkippedExisting, SkippedExisting, SkippedExisting],
      countdown 2 ((countdown 2 w_after)\<lparr>events := events (countdown 2 w_after) @ [Get thread3, Wait]\<rparr>))"
    by (simp add: cycle3_first cycle3_again)
  have a: "\<exists>wk. list_all worker_event wk \<and>
         events (w_after\<lparr>events := events w_after @ [Report 3]\<rparr>) =
           events w_empty @ [Get thread3] @ wk @ [Wait, Report 3]"
    using one_pass_or_countdown [of 0 E3 2 thread3 "''4chan''" "''/d''" 0 "[]" w_empty "Finished 3"
        "[Downloaded ''1.jpg'' 3, Downloaded ''2.png'' 3, Downloaded ''3.gif'' 3]"
        "w_after\<lparr>events := events w_after @ [Report 3]\<rparr>"] once
    by simp
  have b: "\<exists>wks. length wks = Suc (Suc 0) \<and> list_all (list_all worker_event) wks \<and>
         events (snd (snd ?twice)) =
           events w_empty @ concat (map (\<lambda>wk. [Get thread3] @ wk @ [Wait] @ ticks 2) wks)"
    using one_pass_or_countdown [of "Suc (Suc 0)" E3 2 thread3 "''4chan''" "''/d''" 0 "[]" w_empty Running
        "fst (snd ?twice)" "snd (snd ?twice)"] twice
    by simp
  show ?thesis
    using once twice a b by (simp add: ticks2)
qed

section \<open>The counter of files\<close>

lemma cycle_counts:
  assumes "cycle E inputUrl siteID pathResult files w = (Inr (files', ocs), w')"
  shows "files' = files + int (length ocs)"
    and "\<forall>resp. resp_of (net E (sent w) inputUrl) = Some resp \<longrightarrow>
           length ocs = length (findImages (regex E) (Body resp) siteID)"
proof -
  from assms obtain resp wj where r: "resp_of (net E (sent w) inputUrl) = Some resp"
    and b: "workers E pathResult (findImages (regex E) (Body resp) siteID) files
           (w\<lparr>events := events w @ [Get inputUrl]\<rparr>) = (Inr (files', ocs), wj)"
    by (rule cycle_Inr)
  from workers_skips [OF b] show "files' = files + int (length ocs)" by simp
  from workers_skips [OF b] r
  show "\<forall>resp. resp_of (net E (sent w) inputUrl) = Some resp \<longrightarrow>
           length ocs = length (findImages (regex E) (Body resp) siteID)" by simp
qed

lemma main_loop_counts:
  "main_loop fuel E monitor secondsIteration inputUrl siteID pathResult files outs w = (Finished n, outs', w') \<Longrightarrow>
   n - files = int (length outs') - int (length outs) \<and> last (events w') = Report n"
proof (induction fuel arbitrary: files outs w)
  case 0
  then show ?case by simp
next
  case (Suc fuel)
  obtain res w1 where c: "cycle E inputUrl siteID pathResult files w = (res, w1)"
    by (cases "cycle E inputUrl siteID pathResult files w")
  show ?case
  proof (cases res)
    case (Inl p)
    with Suc.prems c show ?thesis by simp
  next
    case (Inr r)
    obtain files1 ocs where r: "r = (files1, ocs)" by (cases r)
    from cycle_counts(1) [OF c [unfolded Inr r]] have f1: "files1 = files + int (length ocs)" .
    show ?thesis
    proof (cases monitor)
      case False
      with Suc.prems c Inr r f1 show ?thesis by auto
    next
      case True
      with Suc.prems c Inr r have
        "main_loop fuel E monitor secondsIteration inputUrl siteID pathResult files1 (outs @ ocs)
           (countdown secondsIteration w1) = (Finished n, outs', w')"
        by simp
      from Suc.IH [OF this] f1 show ?thesis by simp
    qed
  qed
qed

lemma E3_global: "E3\<lparr>monitorMode := False\<rparr> = E3"
  by (simp add: E3_def)

lemma run3_again:
  "main_run (Suc 0) E3 False 0 thread3 ''4chan'' ''/d'' w_after =
     (Finished 3, [SkippedExisting, SkippedExisting, SkippedExisting],
      w_again\<lparr>events := events w_again @ [Report 3]\<rparr>)"
proof -
  have "cycle E3 thread3 ''4chan'' ''/d'' 0 w_after =
     (Inr (3, [SkippedExisting, SkippedExisting, SkippedExisting]), w_again)"
    using cycle3_again [of w_after 0] by (simp add: w_again_def)
  then show ?thesis
    unfolding main_run_def E3_global by simp
qed

lemma run3_first:
  "main_run (Suc 0) E3 False 0 thread3 ''4chan'' ''/d'' w_empty =
     (Finished 3, [Downloaded ''1.jpg'' 3, Downloaded ''2.png'' 3, Downloaded ''3.gif'' 3],
      w_after\<lparr>events := events w_after @ [Report 3]\<rparr>)"
  unfolding main_run_def E3_global by (simp add: cycle3_first)

text \<open>
  C4, as amended. \<open>files\<close> is incremented in the loop of main that starts the workers:
  once for every link of a cycle, whatever its worker then does. After a batch it has
  grown by the number of links, the report of a finished run is the number of outcomes
  of all kinds, and a run of one cycle out of monitor mode reports the number of links
  of the page: 3 for a page of three distinct links. The counterexample is a run in
  which every link is skipped and the report is 3.
\<close>

theorem files_counts_links:
  "(workers E pathResult links files w = (Inr (files', ocs), w') \<longrightarrow>
      files' = files + int (length links) \<and> length ocs = length links)
   \<and> (main_loop fuel E monitor secondsIteration inputUrl siteID pathResult files outs w = (Finished n, outs', w') \<longrightarrow>
      n - files = int (length outs') - int (length outs) \<and> last (events w') = Report n)
   \<and> (main_run (Suc fuel) E False secondsIteration inputUrl siteID pathResult w = (Finished n, outs', w') \<longrightarrow>
      n = int (length outs') \<and>
      (\<forall>resp. resp_of (net E (sent w) inputUrl) = Some resp \<longrightarrow>
         n = int (length (findImages (regex E) (Body resp) siteID))))"
proof (intro conjI impI)
  assume "workers E pathResult links files w = (Inr (files', ocs), w')"
  from workers_skips [OF this]
  show "files' = files + int (length links)" "length ocs = length links" by simp_all
next
  assume "main_loop fuel E monitor secondsIteration inputUrl siteID pathResult files outs w = (Finished n, outs', w')"
  from main_loop_counts [OF this]
  show "n - files = int (length outs') - int (length outs)" "last (events w') = Report n" by simp_all
next
  assume run: "main_run (Suc fuel) E False secondsIteration inputUrl siteID pathResult w = (Finished n, outs', w')"
  let ?E = "E\<lparr>monitorMode := False\<rparr>"
  obtain res w1 where c: "cycle ?E inputUrl siteID pathResult 0 w = (res, w1)"
    by (cases "cycle ?E inputUrl siteID pathResult 0 w")
  from run c obtain files1 where res: "res = Inr (files1, outs')" and n: "n = files1"
    by (cases res) (auto simp: main_run_def split: prod.splits)
  from cycle_counts [OF c [unfolded res]] n
  show "n = int (length outs')"
    "\<forall>resp. resp_of (net E (sent w) inputUrl) = Some resp \<longrightarrow>
         n = int (length (findImages (regex E) (Body resp) siteID))"
    by simp_all
qed

theorem files_counts_downloads_counterexample:
  "main_run (Suc 0) E3 False 0 thread3 ''4chan'' ''/d'' w_after =
     (Finished 3, [SkippedExisting, SkippedExisting, SkippedExisting],
      w_again\<lparr>events := events w_again @ [Report 3]\<rparr>)"
  by (rule run3_again)

theorem files_counts_links_witness:
  "main_run (Suc 0) E3 False 0 thread3 ''4chan'' ''/d'' w_empty =
     (Finished 3, [Downloaded ''1.jpg'' 3, Downloaded ''2.png'' 3, Downloaded ''3.gif'' 3],
      w_after\<lparr>events := events w_after @ [Report 3]\<rparr>)
   \<and> (3::int) = int (length [Downloaded ''1.jpg'' 3, Downloaded ''2.png'' 3, Downloaded ''3.gif'' 3])
   \<and> (3::int) = int (length (findImages (regex E3) page3 ''4chan''))"
proof -
  let ?outs = "[Downloaded ''1.jpg'' 3, Downloaded ''2.png'' 3, Downloaded ''3.gif'' 3]"
  let ?w = "w_after\<lparr>events := events w_after @ [Report 3]\<rparr>"
  let ?page = "\<lparr>StatusCode = 200, Body = page3, Broken = False\<rparr>"
  have page: "resp_of (net E3 (sent w_empty) thread3) = Some ?page"
    by (simp add: E3_def)
  note T = files_counts_links [where fuel = 0 and E = E3 and secondsIteration = 0
      and inputUrl = thread3 and siteID = "''4chan''" and pathResult = "''/d''" and w = w_empty
      and n = 3 and outs' = ?outs and w' = ?w]
  note T3 = T [THEN conjunct2, THEN conjunct2]
  from T3 run3_first have both: "3 = int (length ?outs) \<and>
      (\<forall>resp. resp_of (net E3 (sent w_empty) thread3) = Some resp \<longrightarrow>
         3 = int (length (findImages (regex E3) (Body resp) ''4chan'')))"
    by (rule mp)
  then have "3 = int (length (findImages (regex E3) (Body ?page) ''4chan''))"
    using page by blast
  then have links: "(3::int) = int (length (findImages (regex E3) page3 ''4chan''))"
    by simp
  from both have outs: "(3::int) = int (length ?outs)" by (rule conjunct1)
  from run3_first outs links show ?thesis by (intro conjI)
qed

section \<open>Failures of a worker\<close>

lemma downloadFile_locked:
  "disk w (filepath_Join path fileName) = Some NoAccess \<Longrightarrow>
   downloadFile E url fileName path w = (Inl StatFailed, w)"
  by (simp add: downloadFile_def fileExists_def os_Stat_def)

lemma downloadFile_not_ok:
  "fileExists (filepath_Join path fileName) w = Inr False \<Longrightarrow>
   retry E url 0 None w = (Some r, wr) \<Longrightarrow> StatusCode r \<noteq> 200 \<Longrightarrow>
   downloadFile E url fileName path w = (Inr (Failed NotOK), wr)"
  by (simp add: downloadFile_def)

lemma downloadFile_create_failed:
  "fileExists (filepath_Join path fileName) w = Inr False \<Longrightarrow>
   retry E url 0 None w = (Some r, wr) \<Longrightarrow> StatusCode r = 200 \<Longrightarrow> \<not> monitorMode E \<Longrightarrow>
   os_Create (path @ ''/'' @ fileName) wr = None \<Longrightarrow>
   downloadFile E url fileName path w = (Inr (Failed CreateFailed), wr)"
  by (simp add: downloadFile_def)

lemma downloadFile_copy_failed:
  "fileExists (filepath_Join path fileName) w = Inr False \<Longrightarrow>
   retry E url 0 None w = (Some r, wr) \<Longrightarrow> StatusCode r = 200 \<Longrightarrow> \<not> monitorMode E \<Longrightarrow>
   Broken r \<Longrightarrow> os_Create (path @ ''/'' @ fileName) wr \<noteq> None \<Longrightarrow>
   fst (downloadFile E url fileName path w) = Inr (Failed CopyFailed)"
  by (auto simp: downloadFile_def io_Copy_def)

lemma downloadFile_panic_cases:
  assumes "downloadFile E url fileName path w = (Inl p, w')"
  shows "(p = StatFailed \<and> disk w (filepath_Join path fileName) = Some NoAccess)
    \<or> p = NilPointer \<or> p = IndexOutOfRange"
proof -
  obtain resp wr where r: "retry E url 0 None w = (resp, wr)" by (cases "retry E url 0 None w")
  with assms show ?thesis
    by (auto simp: downloadFile_def Let_def fileExists_def os_Stat_def io_Copy_def size_label_def
        split: sum.splits bool.splits option.splits node.splits if_splits prod.splits stat.splits)
qed

lemma downloadFile_locked_before:
  assumes "disk (snd (downloadFile E url fileName path w)) x = Some NoAccess"
  shows "disk w x = Some NoAccess"
proof -
  obtain resp wr where r: "retry E url 0 None w = (resp, wr)" by (cases "retry E url 0 None w")
  then have d: "disk wr = disk w" using retry_disk [of E url 0 None w] by simp
  with assms r show ?thesis
    by (auto simp: downloadFile_def Let_def os_Create_def io_Copy_def size_label_def
        split: sum.splits bool.splits option.splits node.splits if_splits prod.splits)
qed

lemma workers_panic_cases:
  "workers E path links files w = (Inl p, w') \<Longrightarrow>
   (p = StatFailed \<and> (\<exists>l \<in> set links. disk w (destination path l) = Some NoAccess))
    \<or> p = NilPointer \<or> p = IndexOutOfRange"
proof (induction links arbitrary: files w)
  case Nil
  then show ?case by simp
next
  case (Cons link links)
  let ?name = "last (strings_Split link ''/'')"
  obtain res w1 where d: "downloadFile E link ?name path w = (res, w1)"
    by (cases "downloadFile E link ?name path w")
  show ?case
  proof (cases res)
    case (Inl q)
    with Cons.prems d have "q = p" by (simp add: Let_def)
    with downloadFile_panic_cases [OF d [unfolded Inl]] show ?thesis
      by (auto simp: destination_def)
  next
    case (Inr oc)
    with Cons.prems d have rest: "workers E path links (files + 1) w1 = (Inl p, w')"
      by (auto simp: Let_def split: prod.splits sum.splits)
    from Cons.IH [OF rest] show ?thesis
    proof (elim disjE conjE bexE)
      fix l assume p: "p = StatFailed" and l: "l \<in> set links"
        and "disk w1 (destination path l) = Some NoAccess"
      then have "disk w (destination path l) = Some NoAccess"
        using downloadFile_locked_before [of E link ?name path w] d by simp
      with p l show ?thesis by auto
    qed simp_all
  qed
qed

lemma workers_append:
  "workers E path (ls1 @ ls2) files w =
     (case workers E path ls1 files w of
        (Inl p, wi) \<Rightarrow> (Inl p, wi)
      | (Inr (f1, ocs1), wi) \<Rightarrow>
          (case workers E path ls2 f1 wi of
             (Inl p, w2) \<Rightarrow> (Inl p, w2)
           | (Inr (f2, ocs2), w2) \<Rightarrow> (Inr (f2, ocs1 @ ocs2), w2)))"
proof (induction ls1 arbitrary: files w)
  case Nil
  show ?case by (auto split: prod.splits sum.splits)
next
  case (Cons l ls1)
  let ?name = "last (strings_Split l ''/'')"
  obtain res w1 where d: "downloadFile E l ?name path w = (res, w1)"
    by (cases "downloadFile E l ?name path w")
  show ?case
  proof (cases res)
    case (Inl p)
    with d show ?thesis by (simp add: Let_def)
  next
    case (Inr oc)
    with d Cons.IH [of "files + 1" w1] show ?thesis
      by (auto simp: Let_def split: prod.splits sum.splits)
  qed
qed

lemma workers_single:
  "workers E path [l] files w =
     (case downloadFile E l (last (strings_Split l ''/'')) path w of
        (Inl p, wj) \<Rightarrow> (Inl p, wj)
      | (Inr oc, wj) \<Rightarrow> (Inr (files + 1, [oc]), wj))"
  by (auto simp: Let_def split: prod.splits sum.splits)

text \<open>A failed outcome, like any other, leaves the batch running.\<close>

lemma workers_goes_on:
  assumes "workers E path ls1 files w = (Inr (f1, ocs1), wi)"
    and "downloadFile E l (last (strings_Split l ''/'')) path wi = (Inr oc, wj)"
  shows "workers E path (ls1 @ l # ls2) files w =
     (case workers E path ls2 (f1 + 1) wj of
        (Inl p, w2) \<Rightarrow> (Inl p, w2)
      | (Inr (f2, ocs2), w2) \<Rightarrow> (Inr (f2, ocs1 @ oc # ocs2), w2))"
  using assms
  by (auto simp: workers_append [of E path ls1 "l # ls2"] Let_def split: prod.splits sum.splits)

text \<open>The outcome at a position is the one of the worker of the link at that position.\<close>

lemma workers_own_outcome:
  assumes "workers E path (ls1 @ l # ls2) files w = (Inr (files', ocs), w')"
  shows "\<exists>wi wj.
     workers E path ls1 files w = (Inr (files + int (length ls1), take (length ls1) ocs), wi)
     \<and> downloadFile E l (last (strings_Split l ''/'')) path wi = (Inr (ocs ! length ls1), wj)
     \<and> workers E path ls2 (files + int (length ls1) + 1) wj =
         (Inr (files', drop (Suc (length ls1)) ocs), w')"
proof -
  obtain res1 wi where a: "workers E path ls1 files w = (res1, wi)"
    by (cases "workers E path ls1 files w")
  from assms a obtain f1 ocs1 where r1: "res1 = Inr (f1, ocs1)"
    by (cases res1) (auto simp: workers_append [of E path ls1 "l # ls2"])
  from workers_skips [OF a [unfolded r1]] have f1: "f1 = files + int (length ls1)"
    and len1: "length ocs1 = length ls1" by simp_all
  obtain res wj where d: "downloadFile E l (last (strings_Split l ''/'')) path wi = (res, wj)"
    by (cases "downloadFile E l (last (strings_Split l ''/'')) path wi")
  from assms a r1 d obtain oc where oc: "res = Inr oc"
    by (cases res) (auto simp: workers_append [of E path ls1 "l # ls2"] Let_def)
  from assms a r1 d oc obtain ocs2 where
    rest: "workers E path ls2 (f1 + 1) wj = (Inr (files', ocs2), w')" and ocs: "ocs = ocs1 @ oc # ocs2"
    by (auto simp: workers_append [of E path ls1 "l # ls2"] Let_def split: prod.splits sum.splits)
  from a r1 f1 len1 ocs have "workers E path ls1 files w =
      (Inr (files + int (length ls1), take (length ls1) ocs), wi)" by simp
  moreover from d oc len1 ocs have "downloadFile E l (last (strings_Split l ''/'')) path wi =
      (Inr (ocs ! length ls1), wj)" by (simp add: nth_append)
  moreover from rest f1 len1 ocs have "workers E path ls2 (files + int (length ls1) + 1) wj =
         (Inr (files', drop (Suc (length ls1)) ocs), w')" by simp
  ultimately show ?thesis by blast
qed

text \<open>A batch panics only with the panic of one of its workers, the earlier ones having returned.\<close>

lemma workers_panic_worker:
  "workers E path links files w = (Inl p, w') \<Longrightarrow>
   \<exists>ls1 l ls2 f1 ocs1 wi. links = ls1 @ l # ls2
     \<and> workers E path ls1 files w = (Inr (f1, ocs1), wi)
     \<and> downloadFile E l (last (strings_Split l ''/'')) path wi = (Inl p, w')"
proof (induction links arbitrary: files w)
  case Nil
  then show ?case by simp
next
  case (Cons link links)
  let ?name = "last (strings_Split link ''/'')"
  obtain res w1 where d: "downloadFile E link ?name path w = (res, w1)"
    by (cases "downloadFile E link ?name path w")
  show ?case
  proof (cases res)
    case (Inl q)
    with Cons.prems d have "downloadFile E link ?name path w = (Inl p, w')"
      by (simp add: Let_def)
    moreover have "workers E path [] files w = (Inr (files, []), w)" by simp
    ultimately show ?thesis by (metis append_Nil)
  next
    case (Inr oc)
    with Cons.prems d have rest: "workers E path links (files + 1) w1 = (Inl p, w')"
      by (auto simp: Let_def split: prod.splits sum.splits)
    from Cons.IH [OF rest] obtain ls1 l ls2 f1 ocs1 wi where
      l: "links = ls1 @ l # ls2" and a: "workers E path ls1 (files + 1) w1 = (Inr (f1, ocs1), wi)"
      and b: "downloadFile E l (last (strings_Split l ''/'')) path wi = (Inl p, w')"
      by blast
    from d Inr a have "workers E path (link # ls1) files w = (Inr (f1, oc # ocs1), wi)"
      by (simp add: Let_def)
    moreover from l have "link # links = (link # ls1) @ l # ls2" by simp
    ultimately show ?thesis using b by blast
  qed
qed

text \<open>A loop that meets no transport error ends with a response, if it runs at all.\<close>

lemma retry_answer:
  "\<forall>k. net E k url \<noteq> GetErr None \<Longrightarrow> resp \<noteq> None \<or> i < RetryAttempts (config E) \<Longrightarrow>
   fst (retry E url i resp w) \<noteq> None"
proof (induction "nat (RetryAttempts (config E) - i)" arbitrary: i resp w)
  case 0
  then have "\<not> i < RetryAttempts (config E)" by simp
  with 0 show ?case by (simp add: retry_done)
next
  case (Suc n)
  let ?w' = "time_Sleep (SleepBetweenAttempts (config E)) (snd (http_Get E url w))"
  from Suc(2) have lt: "i < RetryAttempts (config E)" and n: "n = nat (RetryAttempts (config E) - (i + 1))"
    by simp_all
  show ?case
  proof (cases "net E (sent w) url")
    case (GetErr e)
    with Suc(3) obtain r where e: "e = Some r" by (cases e) auto
    have "resp_of (GetErr e) \<noteq> None \<or> i + 1 < RetryAttempts (config E)"
      by (simp add: e)
    from Suc(1) [OF n Suc(3) this, of ?w'] retry_step_err [OF lt GetErr, of resp]
    show ?thesis by simp
  next
    case (GetOk r)
    show ?thesis
    proof (cases "StatusCode r = 404 \<or> StatusCode r = 429")
      case True
      have "Some r \<noteq> None \<or> i + 1 < RetryAttempts (config E)" by simp
      from Suc(1) [OF n Suc(3) this, of ?w'] retry_step_again [OF lt GetOk True, of resp]
      show ?thesis by simp
    next
      case False
      with retry_step_stop [OF lt GetOk, of resp] show ?thesis by simp
    qed
  qed
qed

lemma downloadFile_returns:
  assumes "disk w (filepath_Join path fileName) \<noteq> Some NoAccess"
    and "fst (retry E url 0 None w) \<noteq> None"
    and "\<forall>b. 0 \<le> sizeIndex E b \<and> sizeIndex E b < int (length suffixes)"
  shows "\<exists>oc w'. downloadFile E url fileName path w = (Inr oc, w')"
proof -
  obtain resp wr where r: "retry E url 0 None w = (resp, wr)" by (cases "retry E url 0 None w")
  with assms(2) obtain a where a: "resp = Some a" by auto
  from assms(1,3) r a show ?thesis
    by (auto simp: downloadFile_def Let_def fileExists_def os_Stat_def io_Copy_def size_label_def
        split: sum.splits bool.splits option.splits node.splits prod.splits stat.splits)
qed

text \<open>
  A batch in which no destination is out of reach, no retry loop ends on a transport
  error and every size label exists returns an outcome for every link, whatever the
  statuses, the disk and the bodies are.
\<close>

lemma workers_complete:
  assumes "\<forall>l \<in> set links. disk w (destination path l) \<noteq> Some NoAccess"
    and "\<forall>l \<in> set links. \<forall>w0. fst (retry E l 0 None w0) \<noteq> None"
    and "\<forall>b. 0 \<le> sizeIndex E b \<and> sizeIndex E b < int (length suffixes)"
  shows "\<exists>ocs w'. workers E path links files w = (Inr (files + int (length links), ocs), w')
     \<and> length ocs = length links"
  using assms(1,2)
proof (induction links arbitrary: files w)
  case Nil
  show ?case by simp
next
  case (Cons link links)
  let ?name = "last (strings_Split link ''/'')"
  have "disk w (filepath_Join path ?name) \<noteq> Some NoAccess"
    using Cons.prems(1) by (simp add: destination_def)
  moreover have "fst (retry E link 0 None w) \<noteq> None"
    using Cons.prems(2) by simp
  ultimately obtain oc w1 where d: "downloadFile E link ?name path w = (Inr oc, w1)"
    using downloadFile_returns [OF _ _ assms(3)] by blast
  have "\<forall>l \<in> set links. disk w1 (destination path l) \<noteq> Some NoAccess"
  proof
    fix l assume "l \<in> set links"
    with Cons.prems(1) have "disk w (destination path l) \<noteq> Some NoAccess" by simp
    then show "disk w1 (destination path l) \<noteq> Some NoAccess"
      using downloadFile_locked_before [of E link ?name path w "destination path l"] d by auto
  qed
  moreover have "\<forall>l \<in> set links. \<forall>w0. fst (retry E l 0 None w0) \<noteq> None"
    using Cons.prems(2) by simp
  ultimately obtain ocs w' where
    "workers E path links (files + 1) w1 = (Inr (files + 1 + int (length links), ocs), w')"
    "length ocs = length links"
    using Cons.IH [of w1 "files + 1"] by blast
  with d show ?case by (simp add: Let_def)
qed

lemma workers_bad_rest:
  "workers E_bad ''/d'' [''https://i.4cdn.org/w/2.png'', ''https://i.4cdn.org/w/3.gif''] 1
      (w_dir\<lparr>events := [Get ''https://i.4cdn.org/w/1.jpg'']\<rparr>) =
     (Inr (3, [Failed CreateFailed, Failed CopyFailed]),
      w_bad\<lparr>events := [Get ''https://i.4cdn.org/w/1.jpg'', Get ''https://i.4cdn.org/w/2.png'',
         Get ''https://i.4cdn.org/w/3.gif'']\<rparr>)"
  by (simp add: sent_def http_Get_def E_bad_def w_dir_def w_bad_def split2 split3
      downloadFile_def fileExists_def os_Stat_def filepath_Join_def retry.simps GlobalConfig_def
      ok_abc_def thread3_def os_Create_def io_Copy_def size_label_def suffixes_def Let_def)

text \<open>
  C7, as amended. A worker whose last response has a status other than 200, whose file
  cannot be created or whose copy breaks off returns a failed outcome, and a transport
  error before the last attempt leads to the next attempt. Whatever outcome a worker
  returns, a failed one included, the workers of the links after it are run in the
  world it left, and the outcome at each position of a batch is the one that the worker
  of the link at that position returned. A batch in which no destination is out of
  reach, no retry loop ends on a transport error and every size label exists returns an
  outcome for every link. A batch panics only with the panic of one of its workers; the
  panic of \<open>fileExists\<close>, raised when the destination of a link cannot be examined, is
  one: the check of existence is not local. The counterexample is a run that this check
  ends before the other two links of the page are tried.
\<close>

theorem failures_stay_local:
  "(disk w (filepath_Join path fileName) = Some NoAccess \<longrightarrow>
      downloadFile E url fileName path w = (Inl StatFailed, w))
   \<and> (i < RetryAttempts (config E) \<longrightarrow> net E (sent w) url = GetErr e \<longrightarrow>
      retry E url i resp w =
        retry E url (i + 1) (resp_of (GetErr e))
          (time_Sleep (SleepBetweenAttempts (config E)) (snd (http_Get E url w))))
   \<and> (fileExists (filepath_Join path fileName) w = Inr False \<longrightarrow>
      retry E url 0 None w = (Some r, wr) \<longrightarrow>
        (StatusCode r \<noteq> 200 \<longrightarrow> downloadFile E url fileName path w = (Inr (Failed NotOK), wr))
      \<and> (StatusCode r = 200 \<longrightarrow> \<not> monitorMode E \<longrightarrow> os_Create (path @ ''/'' @ fileName) wr = None \<longrightarrow>
           downloadFile E url fileName path w = (Inr (Failed CreateFailed), wr))
      \<and> (StatusCode r = 200 \<longrightarrow> \<not> monitorMode E \<longrightarrow> Broken r \<longrightarrow>
           os_Create (path @ ''/'' @ fileName) wr \<noteq> None \<longrightarrow>
           fst (downloadFile E url fileName path w) = Inr (Failed CopyFailed)))
   \<and> (workers E pathResult ls files w = (Inr (fa, ocsa), wi) \<longrightarrow>
      downloadFile E l (last (strings_Split l ''/'')) pathResult wi = (Inr oc, wj) \<longrightarrow>
      workers E pathResult (ls @ l # ls') files w =
        (case workers E pathResult ls' (fa + 1) wj of
           (Inl p, wk) \<Rightarrow> (Inl p, wk)
         | (Inr (fb, ocsb), wk) \<Rightarrow> (Inr (fb, ocsa @ oc # ocsb), wk)))
   \<and> (workers E pathResult (ls @ l # ls') files w = (Inr (files', ocs), w') \<longrightarrow>
      (\<exists>wa wb.
         workers E pathResult ls files w = (Inr (files + int (length ls), take (length ls) ocs), wa)
         \<and> downloadFile E l (last (strings_Split l ''/'')) pathResult wa = (Inr (ocs ! length ls), wb)
         \<and> workers E pathResult ls' (files + int (length ls) + 1) wb =
             (Inr (files', drop (Suc (length ls)) ocs), w')))
   \<and> ((\<forall>x \<in> set links. disk w (destination pathResult x) \<noteq> Some NoAccess) \<longrightarrow>
      (\<forall>x \<in> set links. \<forall>v. fst (retry E x 0 None v) \<noteq> None) \<longrightarrow>
      (\<forall>b. 0 \<le> sizeIndex E b \<and> sizeIndex E b < int (length suffixes)) \<longrightarrow>
      (\<exists>os v. workers E pathResult links files w = (Inr (files + int (length links), os), v)
         \<and> length os = length links))
   \<and> ((\<forall>k. net E k url \<noteq> GetErr None) \<longrightarrow> 0 < RetryAttempts (config E) \<longrightarrow>
      fst (retry E url 0 None w) \<noteq> None)
   \<and> (workers E pathResult links files w = (Inl p, w') \<longrightarrow>
      (\<exists>xs x ys fx ox wx. links = xs @ x # ys
         \<and> workers E pathResult xs files w = (Inr (fx, ox), wx)
         \<and> downloadFile E x (last (strings_Split x ''/'')) pathResult wx = (Inl p, w')
         \<and> (p = StatFailed \<longrightarrow> disk wx (destination pathResult x) = Some NoAccess)))"
proof (intro conjI impI)
  assume "disk w (filepath_Join path fileName) = Some NoAccess"
  then show "downloadFile E url fileName path w = (Inl StatFailed, w)"
    by (rule downloadFile_locked)
next
  assume "i < RetryAttempts (config E)" "net E (sent w) url = GetErr e"
  then show "retry E url i resp w =
        retry E url (i + 1) (resp_of (GetErr e))
          (time_Sleep (SleepBetweenAttempts (config E)) (snd (http_Get E url w)))"
    by (rule retry_step_err)
next
  assume "fileExists (filepath_Join path fileName) w = Inr False" "retry E url 0 None w = (Some r, wr)"
    "StatusCode r \<noteq> 200"
  then show "downloadFile E url fileName path w = (Inr (Failed NotOK), wr)"
    by (rule downloadFile_not_ok)
next
  assume "fileExists (filepath_Join path fileName) w = Inr False" "retry E url 0 None w = (Some r, wr)"
    "StatusCode r = 200" "\<not> monitorMode E" "os_Create (path @ ''/'' @ fileName) wr = None"
  then show "downloadFile E url fileName path w = (Inr (Failed CreateFailed), wr)"
    by (rule downloadFile_create_failed)
next
  assume "fileExists (filepath_Join path fileName) w = Inr False" "retry E url 0 None w = (Some r, wr)"
    "StatusCode r = 200" "\<not> monitorMode E" "Broken r" "os_Create (path @ ''/'' @ fileName) wr \<noteq> None"
  then show "fst (downloadFile E url fileName path w) = Inr (Failed CopyFailed)"
    by (rule downloadFile_copy_failed)
next
  assume "workers E pathResult ls files w = (Inr (fa, ocsa), wi)"
    "downloadFile E l (last (strings_Split l ''/'')) pathResult wi = (Inr oc, wj)"
  then show "workers E pathResult (ls @ l # ls') files w =
        (case workers E pathResult ls' (fa + 1) wj of
           (Inl p, wk) \<Rightarrow> (Inl p, wk)
         | (Inr (fb, ocsb), wk) \<Rightarrow> (Inr (fb, ocsa @ oc # ocsb), wk))"
    by (rule workers_goes_on)
next
  assume "workers E pathResult (ls @ l # ls') files w = (Inr (files', ocs), w')"
  then show "\<exists>wa wb.
         workers E pathResult ls files w = (Inr (files + int (length ls), take (length ls) ocs), wa)
         \<and> downloadFile E l (last (strings_Split l ''/'')) pathResult wa = (Inr (ocs ! length ls), wb)
         \<and> workers E pathResult ls' (files + int (length ls) + 1) wb =
             (Inr (files', drop (Suc (length ls)) ocs), w')"
    by (rule workers_own_outcome)
next
  assume "\<forall>x \<in> set links. disk w (destination pathResult x) \<noteq> Some NoAccess"
    "\<forall>x \<in> set links. \<forall>v. fst (retry E x 0 None v) \<noteq> None"
    "\<forall>b. 0 \<le> sizeIndex E b \<and> sizeIndex E b < int (length suffixes)"
  then show "\<exists>os v. workers E pathResult links files w = (Inr (files + int (length links), os), v)
         \<and> length os = length links"
    by (rule workers_complete)
next
  assume "\<forall>k. net E k url \<noteq> GetErr None" "0 < RetryAttempts (config E)"
  then show "fst (retry E url 0 None w) \<noteq> None"
    by (intro retry_answer) simp_all
next
  assume a: "workers E pathResult links files w = (Inl p, w')"
  from workers_panic_worker [OF a] obtain xs x ys fx ox wx where
    x: "links = xs @ x # ys" "workers E pathResult xs files w = (Inr (fx, ox), wx)"
    "downloadFile E x (last (strings_Split x ''/'')) pathResult wx = (Inl p, w')"
    by blast
  from downloadFile_panic_cases [OF x(3)]
  have "p = StatFailed \<longrightarrow> disk wx (destination pathResult x) = Some NoAccess"
    by (auto simp: destination_def)
  with x show "\<exists>xs x ys fx ox wx. links = xs @ x # ys
         \<and> workers E pathResult xs files w = (Inr (fx, ox), wx)
         \<and> downloadFile E x (last (strings_Split x ''/'')) pathResult wx = (Inl p, w')
         \<and> (p = StatFailed \<longrightarrow> disk wx (destination pathResult x) = Some NoAccess)"
    by blast
qed

theorem failures_stay_local_counterexample:
  "main_run (Suc 0) E3 True 5 thread3 ''4chan'' ''/d'' w_locked =
     (Crashed StatFailed, [], w_locked\<lparr>events := [Get thread3]\<rparr>)"
proof -
  have "cycle E3 thread3 ''4chan'' ''/d'' 0 w_locked =
      (Inl StatFailed, w_locked\<lparr>events := [Get thread3]\<rparr>)"
    by (simp add: cycle_def http_Get_def E3_def w_locked_def links3 split1
        downloadFile_def fileExists_def os_Stat_def filepath_Join_def Let_def)
  then show ?thesis
    unfolding main_run_def E3_global by simp
qed

theorem failures_stay_local_witness:
  "downloadFile E3 ''https://i.4cdn.org/w/1.jpg'' ''1.jpg'' ''/d'' w_locked = (Inl StatFailed, w_locked)
   \<and> downloadFile E_bad ''https://i.4cdn.org/w/1.jpg'' ''1.jpg'' ''/d'' w_dir =
       (Inr (Failed NotOK), w_dir\<lparr>events := [Get ''https://i.4cdn.org/w/1.jpg'']\<rparr>)
   \<and> workers E_bad ''/d''
         ([] @ ''https://i.4cdn.org/w/1.jpg'' # [''https://i.4cdn.org/w/2.png'', ''https://i.4cdn.org/w/3.gif''])
         0 w_dir =
       (Inr (3, [Failed NotOK, Failed CreateFailed, Failed CopyFailed]),
        w_bad\<lparr>events := [Get ''https://i.4cdn.org/w/1.jpg'', Get ''https://i.4cdn.org/w/2.png'',
           Get ''https://i.4cdn.org/w/3.gif'']\<rparr>)
   \<and> (\<exists>os v. workers E_bad ''/d''
         [''https://i.4cdn.org/w/1.jpg'', ''https://i.4cdn.org/w/2.png'', ''https://i.4cdn.org/w/3.gif'']
         0 w_dir = (Inr (0 + int (length
           [''https://i.4cdn.org/w/1.jpg'', ''https://i.4cdn.org/w/2.png'', ''https://i.4cdn.org/w/3.gif'']), os), v)
       \<and> length os = length
           [''https://i.4cdn.org/w/1.jpg'', ''https://i.4cdn.org/w/2.png'', ''https://i.4cdn.org/w/3.gif''])"
proof -
  let ?l = "''https://i.4cdn.org/w/1.jpg''"
  let ?rest = "[''https://i.4cdn.org/w/2.png'', ''https://i.4cdn.org/w/3.gif'']"
  let ?links = "[''https://i.4cdn.org/w/1.jpg'', ''https://i.4cdn.org/w/2.png'', ''https://i.4cdn.org/w/3.gif'']"
  let ?r = "\<lparr>StatusCode = 500, Body = [], Broken = False\<rparr>"
  let ?wr = "w_dir\<lparr>events := [Get ?l]\<rparr>"
  have locked: "disk w_locked (filepath_Join ''/d'' ''1.jpg'') = Some NoAccess"
    by (simp add: w_locked_def filepath_Join_def)
  have absent: "fileExists (filepath_Join ''/d'' ''1.jpg'') w_dir = Inr False"
    by (simp add: fileExists_def os_Stat_def w_dir_def filepath_Join_def)
  have loop: "retry E_bad ?l 0 None w_dir = (Some ?r, ?wr)"
    by (simp add: retry.simps http_Get_def sent_def E_bad_def w_dir_def GlobalConfig_def thread3_def)
  have st: "StatusCode ?r \<noteq> 200" by simp
  note A = failures_stay_local [where w = w_locked and path = "''/d''" and fileName = "''1.jpg''"
      and E = E3 and url = ?l, THEN conjunct1, THEN mp, OF locked]
  note B = failures_stay_local [where w = w_dir and path = "''/d''" and fileName = "''1.jpg''"
      and E = E_bad and url = ?l and r = ?r and wr = ?wr,
      THEN conjunct2, THEN conjunct2, THEN conjunct1, THEN mp, THEN mp, OF absent loop,
      THEN conjunct1, THEN mp, OF st]
  have none: "workers E_bad ''/d'' [] 0 w_dir = (Inr (0, []), w_dir)"
    by simp
  have own: "downloadFile E_bad ?l (last (strings_Split ?l ''/'')) ''/d'' w_dir = (Inr (Failed NotOK), ?wr)"
    using B by (simp add: split1)
  note C = failures_stay_local [where E = E_bad and pathResult = "''/d''" and ls = "[]" and files = 0
      and w = w_dir and fa = 0 and ocsa = "[]" and wi = w_dir and l = ?l and oc = "Failed NotOK"
      and wj = ?wr and ls' = ?rest,
      THEN conjunct2, THEN conjunct2, THEN conjunct2, THEN conjunct1, THEN mp, THEN mp, OF none own]
  have batch: "workers E_bad ''/d'' ([] @ ?l # ?rest) 0 w_dir =
       (Inr (3, [Failed NotOK, Failed CreateFailed, Failed CopyFailed]),
        w_bad\<lparr>events := [Get ''https://i.4cdn.org/w/1.jpg'', Get ''https://i.4cdn.org/w/2.png'',
           Get ''https://i.4cdn.org/w/3.gif'']\<rparr>)"
    unfolding C by (simp add: workers_bad_rest del: workers.simps)
  have up: "\<forall>k. net E_bad k x \<noteq> GetErr None" for x
    by (simp add: E_bad_def)
  have budget: "0 < RetryAttempts (config E_bad)"
    by (simp add: E_bad_def GlobalConfig_def)
  have answer: "fst (retry E_bad x 0 None v) \<noteq> None" for x v
    by (rule failures_stay_local [where E = E_bad and url = x and w = v,
          THEN conjunct2, THEN conjunct2, THEN conjunct2, THEN conjunct2, THEN conjunct2,
          THEN conjunct2, THEN conjunct1, THEN mp, THEN mp, OF up budget])
  have h1: "\<forall>x \<in> set ?links. disk w_dir (destination ''/d'' x) \<noteq> Some NoAccess"
    by (simp add: w_dir_def)
  have h2: "\<forall>x \<in> set ?links. \<forall>v. fst (retry E_bad x 0 None v) \<noteq> None"
    using answer by blast
  have h3: "\<forall>b. 0 \<le> sizeIndex E_bad b \<and> sizeIndex E_bad b < int (length suffixes)"
    by (simp add: E_bad_def suffixes_def)
  note D = failures_stay_local [where E = E_bad and pathResult = "''/d''" and links = ?links
      and files = 0 and w = w_dir,
      THEN conjunct2, THEN conjunct2, THEN conjunct2, THEN conjunct2, THEN conjunct2,
      THEN conjunct1, THEN mp, THEN mp, THEN mp, OF h1 h2 h3]
  from A B batch D show ?thesis by (intro conjI)
qed

section \<open>File names\<close>












section \<open>The extension fallback of the earlier program\<close>










end
